theory Spec2Isabelle
  imports Main "HOL-Library.AList"
begin

section \<open>Data model of \<^verbatim>\<open>dpll_variants.py\<close>\<close>

text \<open>
  A literal is a Python integer, a clause a list of literals, a CNF a list of clauses.
  An assignment is a Python \<^verbatim>\<open>dict\<close> from variables to booleans; it is modelled as an
  association list in insertion order (\<open>AList.update\<close> overwrites an existing key in
  place and appends a new one, as a \<^verbatim>\<open>dict\<close> does).
\<close>

type_synonym clause = "int list"
type_synonym cnf = "int list list"
type_synonym assignment = "(int \<times> bool) list"

datatype py_error = IndexError | ValueError

definition dict_get :: "assignment \<Rightarrow> int \<Rightarrow> bool option" where
  "dict_get a var = map_of a var"

definition dict_set :: "assignment \<Rightarrow> int \<Rightarrow> bool \<Rightarrow> assignment" where
  "dict_set a var b = AList.update var b a"

text \<open>\<^verbatim>\<open>d.update(other)\<close>: the items of \<^verbatim>\<open>other\<close> are stored into \<^verbatim>\<open>d\<close> one by one.\<close>

definition dict_update :: "assignment \<Rightarrow> assignment \<Rightarrow> assignment" where
  "dict_update d other = fold (\<lambda>kv acc. dict_set acc (fst kv) (snd kv)) other d"

text \<open>
  The keys of a \<^verbatim>\<open>dict\<close> (or \<^verbatim>\<open>defaultdict\<close>) that is filled by walking a sequence:
  every element once, in the order of its first occurrence.
\<close>

definition first_occurrences :: "'a list \<Rightarrow> 'a list" where
  "first_occurrences xs = fold (\<lambda>x acc. if x \<in> set acc then acc else acc @ [x]) xs []"

text \<open>
  Python's \<^verbatim>\<open>max(keys, key=f)\<close> on a non-empty sequence: the first element whose key is
  maximal (a later element replaces the best one only when its key is strictly greater).
\<close>

fun py_max :: "('a \<Rightarrow> nat) \<Rightarrow> 'a list \<Rightarrow> 'a" where
  "py_max f (x # xs) = fold (\<lambda>y best. if f best < f y then y else best) xs x"
| "py_max f [] = undefined"

record SolverMetrics =
  decisions :: nat
  backtracks :: nat
  unit_propagations :: nat
  conflicts :: nat

definition reset :: SolverMetrics where
  "reset = \<lparr>decisions = 0, backtracks = 0, unit_propagations = 0, conflicts = 0\<rparr>"

text \<open>
  The model list that every \<^verbatim>\<open>solve\<close> builds: for \<^verbatim>\<open>var\<close> in
  \<^verbatim>\<open>range(1, num_vars + 1)\<close>, \<^verbatim>\<open>var\<close> when the assignment maps it to \<^verbatim>\<open>True\<close> and
  \<^verbatim>\<open>-var\<close> otherwise (unassigned variables default to false).
\<close>

definition build_model :: "int \<Rightarrow> assignment \<Rightarrow> int list" where
  "build_model num_vars a =
     map (\<lambda>var. if dict_get a var = Some True then var else - var) [1..num_vars]"

section \<open>BaseDPLL\<close>

record BaseDPLL =
  b_num_vars :: int
  b_clauses :: cnf
  b_metrics :: SolverMetrics
  b_assignment :: assignment

definition BaseDPLL_init :: "cnf \<Rightarrow> int \<Rightarrow> BaseDPLL" where
  "BaseDPLL_init clauses num_vars =
     \<lparr>b_num_vars = num_vars, b_clauses = clauses, b_metrics = reset, b_assignment = []\<rparr>"

definition assign_literal :: "cnf \<Rightarrow> int \<Rightarrow> cnf" where
  "assign_literal clauses lit =
     map (filter (\<lambda>l. l \<noteq> - lit)) (filter (\<lambda>clause. lit \<notin> set clause) clauses)"

definition find_pure_literal :: "cnf \<Rightarrow> int option" where
  "find_pure_literal clauses =
     (let lits = concat clauses;
          positive = filter (\<lambda>lit. lit > 0) lits;
          negative = map uminus (filter (\<lambda>lit. \<not> lit > 0) lits);
          pure_positive = filter (\<lambda>v. v \<notin> set negative) positive;
          pure_negative = filter (\<lambda>v. v \<notin> set positive) negative
      in if pure_positive \<noteq> [] then Some (min_list pure_positive)
         else if pure_negative \<noteq> [] then Some (- min_list pure_negative)
         else None)"

definition choose_variable :: "cnf \<Rightarrow> int" where
  "choose_variable clauses =
     (let lits = concat clauses;
          keys = first_occurrences lits
      in if keys = [] then 1
         else abs (py_max (\<lambda>l. count_list lits l) keys))"

text \<open>
  One pass of the \<^verbatim>\<open>for unit_clause in unit_clauses\<close> loop of \<^verbatim>\<open>_unit_propagate\<close>.
  The list of unit clauses was computed before the pass and is not refreshed inside it.
  The result is \<open>None\<close> for the clauses when the pass returned the conflict.
\<close>

fun up_for :: "clause list \<Rightarrow> cnf \<Rightarrow> assignment \<Rightarrow> nat \<Rightarrow> bool
    \<Rightarrow> cnf option \<times> assignment \<times> nat \<times> bool" where
  "up_for [] clauses a props changed = (Some clauses, a, props, changed)"
| "up_for (unit_clause # rest) clauses a props changed =
     (let lit = hd unit_clause; var = abs lit; val = (lit > 0) in
      case dict_get a var of
        Some b \<Rightarrow>
          if b \<noteq> val then (None, a, props, changed)
          else up_for rest clauses a props changed
      | None \<Rightarrow>
          (let a' = dict_set a var val;
               clauses' = assign_literal clauses lit;
               props' = props + 1
           in if list_ex (\<lambda>c. length c = 0) clauses' then (None, a', props', True)
              else up_for rest clauses' a' props' True))"


text \<open>
  The \<^verbatim>\<open>while changed\<close> loop ends: a pass that sets \<^verbatim>\<open>changed\<close> has assigned the literal
  of a unit clause that is still among the clauses, and \<^verbatim>\<open>_assign_literal\<close> removes it, so
  the number of clauses drops.
\<close>

lemma assign_literal_unit_removed:
  "[lit] \<in> set clauses \<Longrightarrow> length (assign_literal clauses lit) < length clauses"
  unfolding assign_literal_def
  by (simp add: length_filter_less [of "[lit]"])

lemma assign_literal_other_unit:
  assumes "[l] \<in> set clauses" "abs l \<noteq> abs lit"
  shows "[l] \<in> set (assign_literal clauses lit)"
proof -
  have "l \<noteq> lit" "l \<noteq> - lit" using assms(2) by auto
  then have keep: "filter (\<lambda>x. x \<noteq> - lit) [l] = [l]" and "lit \<notin> set [l]" by auto
  then have "[l] \<in> set (filter (\<lambda>clause. lit \<notin> set clause) clauses)"
    using assms(1) by simp
  then have "filter (\<lambda>x. x \<noteq> - lit) [l] \<in> set (assign_literal clauses lit)"
    unfolding assign_literal_def by (simp only: set_map) (rule imageI)
  then show ?thesis using keep by simp
qed

lemma dict_get_set:
  "dict_get (dict_set a k v) k' = (if k' = k then Some v else dict_get a k')"
  by (simp add: dict_get_def dict_set_def update_conv')

lemma up_for_length:
  assumes "up_for us clauses a props changed = (Some clauses', a', props', changed')"
    and "\<forall>u \<in> set us. \<exists>l. u = [l] \<and> (dict_get a (abs l) = None \<longrightarrow> u \<in> set clauses)"
  shows "length clauses' \<le> length clauses \<and>
         (changed' \<and> \<not> changed \<longrightarrow> length clauses' < length clauses)"
  using assms
proof (induction us arbitrary: clauses a props changed)
  case Nil
  then show ?case by simp
next
  case (Cons u us)
  from Cons.prems(2) obtain lit where u: "u = [lit]"
    and inC: "dict_get a (abs lit) = None \<Longrightarrow> u \<in> set clauses" by auto
  show ?case
  proof (cases "dict_get a (abs lit)")
    case (Some b)
    with Cons.prems(1) u
    have "up_for us clauses a props changed = (Some clauses', a', props', changed')"
      by (simp split: if_splits)
    moreover
    have "\<forall>u \<in> set us. \<exists>l. u = [l] \<and> (dict_get a (abs l) = None \<longrightarrow> u \<in> set clauses)"
      using Cons.prems(2) by simp
    ultimately show ?thesis using Cons.IH by blast
  next
    case None
    let ?a = "dict_set a (abs lit) (lit > 0)"
    let ?c = "assign_literal clauses lit"
    from None Cons.prems(1) u
    have rec: "up_for us ?c ?a (props + 1) True = (Some clauses', a', props', changed')"
      by (simp add: Let_def split: if_splits)
    have inv: "\<forall>u \<in> set us. \<exists>l. u = [l] \<and> (dict_get ?a (abs l) = None \<longrightarrow> u \<in> set ?c)"
    proof
      fix w assume w: "w \<in> set us"
      with Cons.prems(2) obtain l where l: "w = [l]"
        "dict_get a (abs l) = None \<longrightarrow> w \<in> set clauses" by auto
      have "dict_get ?a (abs l) = None \<longrightarrow> w \<in> set ?c"
      proof
        assume n: "dict_get ?a (abs l) = None"
        then have ne: "abs l \<noteq> abs lit" and "dict_get a (abs l) = None"
          by (auto simp: dict_get_set split: if_splits)
        with l have "[l] \<in> set clauses" by simp
        with ne show "w \<in> set ?c" using l(1) assign_literal_other_unit by simp
      qed
      with l(1) show "\<exists>l. w = [l] \<and> (dict_get ?a (abs l) = None \<longrightarrow> w \<in> set ?c)"
        by (intro exI [of _ l] conjI)
    qed
    from Cons.IH [OF rec inv] have "length clauses' \<le> length ?c" by (rule conjunct1)
    moreover have "[lit] \<in> set clauses"
      using inC [OF None] u by simp
    then have "length ?c < length clauses"
      by (rule assign_literal_unit_removed)
    ultimately show ?thesis by linarith
  qed
qed

text \<open>
  \<^verbatim>\<open>BaseDPLL._unit_propagate\<close>: the \<^verbatim>\<open>while changed\<close> loop. The third component is the
  counter \<^verbatim>\<open>metrics.unit_propagations\<close>.
\<close>

function unit_propagate :: "cnf \<Rightarrow> assignment \<Rightarrow> nat \<Rightarrow> cnf option \<times> assignment \<times> nat" where
  "unit_propagate clauses a props =
     (let unit_clauses = filter (\<lambda>c. length c = 1) clauses in
      if unit_clauses = [] then (Some clauses, a, props)
      else (case up_for unit_clauses clauses a props False of
              (None, a', props', changed) \<Rightarrow> (None, a', props')
            | (Some clauses', a', props', changed) \<Rightarrow>
                if changed then unit_propagate clauses' a' props'
                else (Some clauses', a', props')))"
  by pat_completeness auto
termination
proof (relation "measure (\<lambda>(clauses, a, props). length clauses)")
  show "wf (measure (\<lambda>(clauses, a, props). length clauses))" by simp
next
  fix clauses :: cnf and a :: assignment and props :: nat
    and unit_clauses x1 x2 x2a y x1a x2b x1b x2c
  assume u: "unit_clauses = filter (\<lambda>c. length c = 1) clauses"
    and "(x1, x2) = up_for unit_clauses clauses a props False"
    and "(x1a, x2b) = x2" "(x1b, x2c) = x2b" "x1 = Some y" "x2c"
  then have r: "up_for unit_clauses clauses a props False = (Some y, x1a, x1b, True)" by simp
  have "\<forall>w \<in> set unit_clauses. \<exists>l. w = [l] \<and> (dict_get a (abs l) = None \<longrightarrow> w \<in> set clauses)"
    unfolding u by (auto simp: length_Suc_conv)
  from up_for_length [OF r this] have "length y < length clauses" by simp
  then show "((y, x1a, x1b), clauses, a, props) \<in> measure (\<lambda>(clauses, a, props). length clauses)"
    by simp
qed

text \<open>
  \<^verbatim>\<open>BaseDPLL._dpll\<close>. The recursion need not end (on the single empty clause the
  source recurses until the interpreter's stack is exhausted), so the result is an
  option and \<open>None\<close> stands for a call that does not return. \<^verbatim>\<open>if pure_lit:\<close> is false
  for \<^verbatim>\<open>None\<close> and for the literal \<^verbatim>\<open>0\<close>.
\<close>

definition add_conflict :: "SolverMetrics \<Rightarrow> SolverMetrics" where
  "add_conflict m = m\<lparr>conflicts := conflicts m + 1\<rparr>"

definition add_decision :: "SolverMetrics \<Rightarrow> SolverMetrics" where
  "add_decision m = m\<lparr>decisions := decisions m + 1\<rparr>"

definition add_backtrack :: "SolverMetrics \<Rightarrow> SolverMetrics" where
  "add_backtrack m = m\<lparr>backtracks := backtracks m + 1\<rparr>"

definition truthy :: "int option \<Rightarrow> bool" where
  "truthy x = (case x of None \<Rightarrow> False | Some l \<Rightarrow> l \<noteq> 0)"

partial_function (option) base_dpll :: "cnf \<Rightarrow> assignment \<Rightarrow> BaseDPLL \<Rightarrow> (bool \<times> BaseDPLL) option" where
  "base_dpll clauses0 assignment0 self =
     (case unit_propagate clauses0 assignment0 (unit_propagations (b_metrics self)) of
        (None, assignment, props) \<Rightarrow>
          Some (False, self\<lparr>b_metrics := add_conflict ((b_metrics self)\<lparr>unit_propagations := props\<rparr>)\<rparr>)
      | (Some clauses, assignment, props) \<Rightarrow>
          (let self1 = self\<lparr>b_metrics := (b_metrics self)\<lparr>unit_propagations := props\<rparr>\<rparr>;
               pure_lit = find_pure_literal clauses
           in
           if clauses = [] then Some (True, self1\<lparr>b_assignment := assignment\<rparr>)
           else if truthy pure_lit then
             base_dpll (assign_literal clauses (the pure_lit))
               (dict_set assignment (abs (the pure_lit)) (the pure_lit > 0)) self1
           else
             (let var = choose_variable clauses;
                  self2 = self1\<lparr>b_metrics := add_decision (b_metrics self1)\<rparr>
              in Option.bind
                   (base_dpll (assign_literal clauses var) (dict_set assignment var True) self2)
                   (\<lambda>r. if fst r then Some r
                        else base_dpll (assign_literal clauses (- var))
                               (dict_set assignment var False)
                               ((snd r)\<lparr>b_metrics := add_backtrack (b_metrics (snd r))\<rparr>)))))"

declare base_dpll.simps [code]

text \<open>\<^verbatim>\<open>BaseDPLL.solve\<close>: the status, the model and the solver object after the call.\<close>

definition BaseDPLL_solve :: "BaseDPLL \<Rightarrow> ((string \<times> int list option) \<times> BaseDPLL) option" where
  "BaseDPLL_solve self =
     (let self0 = self\<lparr>b_metrics := reset\<rparr> in
      case base_dpll (b_clauses self0) (b_assignment self0) self0 of
        None \<Rightarrow> None
      | Some (True, self1) \<Rightarrow>
          Some ((''SAT'', Some (build_model (b_num_vars self1) (b_assignment self1))), self1)
      | Some (False, self1) \<Rightarrow> Some ((''UNSAT'', None), self1))"

section \<open>WatchedLiteralsDPLL\<close>

text \<open>
  The solver object. \<^verbatim>\<open>_save_state\<close> copies the assignment \<^verbatim>\<open>dict\<close> and
  \<^verbatim>\<open>_restore_state\<close> makes \<^verbatim>\<open>self.assignment\<close> point to the saved object itself, so the
  model keeps the \<^verbatim>\<open>dict\<close> objects in a store (\<open>w_heap\<close>, indexed by address) and
  \<open>w_assignment\<close> is the address that \<^verbatim>\<open>self.assignment\<close> holds. Every write
  \<^verbatim>\<open>self.assignment[var] = value\<close> goes to the object at that address.
  \<^verbatim>\<open>watches\<close> is a \<^verbatim>\<open>defaultdict(list)\<close>: a missing key reads as the empty list.
\<close>

type_synonym watches = "(int \<times> nat list) list"

record WatchedLiteralsDPLL =
  w_num_vars :: int
  w_original_clauses :: cnf
  w_metrics :: SolverMetrics
  w_clauses :: cnf
  w_watches :: watches
  w_heap :: "assignment list"
  w_assignment :: nat

definition watches_get :: "watches \<Rightarrow> int \<Rightarrow> nat list" where
  "watches_get w lit = (case map_of w lit of None \<Rightarrow> [] | Some idxs \<Rightarrow> idxs)"

definition watches_append :: "watches \<Rightarrow> int \<Rightarrow> nat \<Rightarrow> watches" where
  "watches_append w lit idx = AList.update lit (watches_get w lit @ [idx]) w"

definition initialize_watches :: "cnf \<Rightarrow> cnf \<times> watches" where
  "initialize_watches original_clauses =
     fold (\<lambda>clause acc.
             (let clause_idx = length (fst acc);
                  w1 = (if length clause \<ge> 1 then watches_append (snd acc) (clause ! 0) clause_idx
                        else snd acc);
                  w2 = (if length clause \<ge> 2 then watches_append w1 (clause ! 1) clause_idx
                        else w1)
              in (fst acc @ [clause], w2)))
       original_clauses ([], [])"

definition WatchedLiteralsDPLL_init :: "cnf \<Rightarrow> int \<Rightarrow> WatchedLiteralsDPLL" where
  "WatchedLiteralsDPLL_init clauses num_vars =
     \<lparr>w_num_vars = num_vars, w_original_clauses = clauses, w_metrics = reset,
      w_clauses = fst (initialize_watches clauses),
      w_watches = snd (initialize_watches clauses),
      w_heap = [[]], w_assignment = 0\<rparr>"

text \<open>The \<^verbatim>\<open>dict\<close> that \<^verbatim>\<open>self.assignment\<close> points to, and a write into it.\<close>

definition cur_assignment :: "WatchedLiteralsDPLL \<Rightarrow> assignment" where
  "cur_assignment self = w_heap self ! w_assignment self"

definition set_cur_assignment :: "WatchedLiteralsDPLL \<Rightarrow> assignment \<Rightarrow> WatchedLiteralsDPLL" where
  "set_cur_assignment self a = self\<lparr>w_heap := (w_heap self)[w_assignment self := a]\<rparr>"

text \<open>
  \<^verbatim>\<open>_save_state\<close> allocates the copy at a fresh address and returns the address;
  \<^verbatim>\<open>_restore_state\<close> stores the address in \<^verbatim>\<open>self.assignment\<close> (no copy is made).
\<close>

definition save_state :: "WatchedLiteralsDPLL \<Rightarrow> nat \<times> WatchedLiteralsDPLL" where
  "save_state self = (length (w_heap self), self\<lparr>w_heap := w_heap self @ [cur_assignment self]\<rparr>)"

definition restore_state :: "WatchedLiteralsDPLL \<Rightarrow> nat \<Rightarrow> WatchedLiteralsDPLL" where
  "restore_state self saved_state = self\<lparr>w_assignment := saved_state\<rparr>"

fun is_unit_scan :: "clause \<Rightarrow> assignment \<Rightarrow> int list \<Rightarrow> bool" where
  "is_unit_scan [] a unassigned = (length unassigned = 1)"
| "is_unit_scan (lit # rest) a unassigned =
     (case dict_get a (abs lit) of
        None \<Rightarrow> is_unit_scan rest a (unassigned @ [lit])
      | Some b \<Rightarrow> if b = (lit > 0) then False else is_unit_scan rest a unassigned)"

text \<open>
  Clause indices come from \<^verbatim>\<open>enumerate(self.clauses)\<close> and from the watch lists, which
  hold indices of \<^verbatim>\<open>self.clauses\<close> only, so \<^verbatim>\<open>self.clauses[clause_idx]\<close> is in range.
\<close>

definition is_unit_clause :: "cnf \<Rightarrow> assignment \<Rightarrow> nat \<Rightarrow> bool" where
  "is_unit_clause clauses a clause_idx = is_unit_scan (clauses ! clause_idx) a []"

fun is_conflicting_scan :: "clause \<Rightarrow> assignment \<Rightarrow> bool" where
  "is_conflicting_scan [] a = True"
| "is_conflicting_scan (lit # rest) a =
     (case dict_get a (abs lit) of
        None \<Rightarrow> False
      | Some b \<Rightarrow> if b = (lit > 0) then False else is_conflicting_scan rest a)"

definition is_conflicting :: "cnf \<Rightarrow> assignment \<Rightarrow> nat \<Rightarrow> bool" where
  "is_conflicting clauses a clause_idx = is_conflicting_scan (clauses ! clause_idx) a"

definition get_unit_literal :: "clause \<Rightarrow> assignment \<Rightarrow> int option" where
  "get_unit_literal clause a = find (\<lambda>lit. dict_get a (abs lit) = None) clause"

text \<open>
  The loop over the watchers of the falsified literal: the indices appended to the
  queue, or \<open>None\<close> when a watcher is conflicting (\<^verbatim>\<open>return False\<close>).
\<close>

fun scan_watchers :: "cnf \<Rightarrow> assignment \<Rightarrow> nat list \<Rightarrow> nat list option" where
  "scan_watchers clauses a [] = Some []"
| "scan_watchers clauses a (watched_clause_idx # rest) =
     (if is_unit_clause clauses a watched_clause_idx then
        map_option (\<lambda>q. watched_clause_idx # q) (scan_watchers clauses a rest)
      else if is_conflicting clauses a watched_clause_idx then None
      else scan_watchers clauses a rest)"

text \<open>
  The \<^verbatim>\<open>while queue\<close> loop of \<^verbatim>\<open>_unit_propagate\<close>, on the current \<^verbatim>\<open>dict\<close>. The
  queue grows inside the loop, so the loop is a partial function: \<open>None\<close> stands for
  a loop that does not end, and every result stated below is a value it returns.
\<close>

partial_function (option) wl_propagate ::
  "cnf \<Rightarrow> watches \<Rightarrow> nat list \<Rightarrow> assignment \<Rightarrow> nat \<Rightarrow> (bool \<times> assignment \<times> nat) option" where
  "wl_propagate clauses watches queue a props =
     (case queue of
        [] \<Rightarrow> Some (True, a, props)
      | clause_idx # queue' \<Rightarrow>
          (case get_unit_literal (clauses ! clause_idx) a of
             None \<Rightarrow> wl_propagate clauses watches queue' a props
           | Some unit_lit \<Rightarrow>
               (case dict_get a (abs unit_lit) of
                  Some b \<Rightarrow>
                    if b \<noteq> (unit_lit > 0) then Some (False, a, props)
                    else wl_propagate clauses watches queue' a props
                | None \<Rightarrow>
                    (let a' = dict_set a (abs unit_lit) (unit_lit > 0);
                         falsified_lit = - unit_lit
                     in case scan_watchers clauses a' (watches_get watches falsified_lit) of
                          None \<Rightarrow> Some (False, a', props + 1)
                        | Some new \<Rightarrow> wl_propagate clauses watches (queue' @ new) a' (props + 1)))))"

declare wl_propagate.simps [code]

definition wl_unit_propagate :: "WatchedLiteralsDPLL \<Rightarrow> (bool \<times> WatchedLiteralsDPLL) option" where
  "wl_unit_propagate self =
     (let a = cur_assignment self;
          queue = filter (is_unit_clause (w_clauses self) a) [0..<length (w_clauses self)]
      in map_option
           (\<lambda>r. (fst r,
                 (set_cur_assignment self (fst (snd r)))
                   \<lparr>w_metrics := (w_metrics self)\<lparr>unit_propagations := snd (snd r)\<rparr>\<rparr>))
           (wl_propagate (w_clauses self) (w_watches self) queue a
              (unit_propagations (w_metrics self))))"

definition clause_satisfied :: "assignment \<Rightarrow> clause \<Rightarrow> bool" where
  "clause_satisfied a clause = list_ex (\<lambda>lit. dict_get a (abs lit) = Some (lit > 0)) clause"

definition wl_choose_variable :: "cnf \<Rightarrow> assignment \<Rightarrow> int option" where
  "wl_choose_variable clauses a =
     (let counted = concat (map (\<lambda>clause. map abs (filter (\<lambda>lit. dict_get a (abs lit) = None) clause))
                              (filter (\<lambda>clause. \<not> clause_satisfied a clause) clauses));
          keys = first_occurrences counted
      in if keys = [] then None
         else Some (py_max (\<lambda>v. count_list counted v) keys))"

text \<open>
  \<^verbatim>\<open>WatchedLiteralsDPLL._dpll\<close>. \<open>None\<close> stands for a call that does not return.
\<close>

partial_function (option) wl_dpll :: "WatchedLiteralsDPLL \<Rightarrow> (bool \<times> WatchedLiteralsDPLL) option" where
  "wl_dpll self =
     Option.bind (wl_unit_propagate self)
       (\<lambda>p. let self1 = snd p in
          if \<not> fst p then Some (False, self1\<lparr>w_metrics := add_conflict (w_metrics self1)\<rparr>)
          else if int (length (cur_assignment self1)) = w_num_vars self1 then Some (True, self1)
          else
            (case wl_choose_variable (w_clauses self1) (cur_assignment self1) of
               None \<Rightarrow> Some (True, self1)
             | Some var \<Rightarrow>
                 (let self2 = self1\<lparr>w_metrics := add_decision (w_metrics self1)\<rparr>;
                      saved_state = fst (save_state self2);
                      self3 = snd (save_state self2);
                      self4 = set_cur_assignment self3 (dict_set (cur_assignment self3) var True)
                  in Option.bind (wl_dpll self4)
                       (\<lambda>r. if fst r then Some r
                            else
                              (let self5 = restore_state (snd r) saved_state;
                                   self6 = self5\<lparr>w_metrics := add_backtrack (w_metrics self5)\<rparr>;
                                   self7 = set_cur_assignment self6
                                             (dict_set (cur_assignment self6) var False)
                               in Option.bind (wl_dpll self7)
                                    (\<lambda>r2. if fst r2 then Some r2
                                          else Some (False, restore_state (snd r2) saved_state)))))))"

declare wl_dpll.simps [code]

definition WatchedLiteralsDPLL_solve ::
  "WatchedLiteralsDPLL \<Rightarrow> ((string \<times> int list option) \<times> WatchedLiteralsDPLL) option" where
  "WatchedLiteralsDPLL_solve self =
     Option.bind (wl_dpll (self\<lparr>w_metrics := reset\<rparr>))
       (\<lambda>r. if fst r then
               Some ((''SAT'', Some (build_model (w_num_vars (snd r)) (cur_assignment (snd r)))), snd r)
             else Some ((''UNSAT'', None), snd r))"

section \<open>PreprocessingDPLL\<close>

record PreprocessingDPLL =
  p_num_vars :: int
  p_original_clauses :: cnf
  p_metrics :: SolverMetrics
  p_assignment :: assignment
  p_vars_eliminated :: nat
  p_clauses_eliminated :: nat

definition PreprocessingDPLL_init :: "cnf \<Rightarrow> int \<Rightarrow> PreprocessingDPLL" where
  "PreprocessingDPLL_init clauses num_vars =
     \<lparr>p_num_vars = num_vars, p_original_clauses = clauses, p_metrics = reset,
      p_assignment = [], p_vars_eliminated = 0, p_clauses_eliminated = 0\<rparr>"

text \<open>
  The simplification loop inside \<^verbatim>\<open>_exhaustive_unit_propagation\<close>: it returns the
  conflict as soon as a clause becomes empty.
\<close>

fun eup_simplify :: "cnf \<Rightarrow> int \<Rightarrow> cnf \<Rightarrow> cnf option" where
  "eup_simplify [] lit new_clauses = Some new_clauses"
| "eup_simplify (clause # rest) lit new_clauses =
     (if lit \<in> set clause then eup_simplify rest lit new_clauses
      else (let new_clause = filter (\<lambda>l. l \<noteq> - lit) clause in
            if length new_clause = 0 then None
            else eup_simplify rest lit (new_clauses @ [new_clause])))"

fun eup_for :: "clause list \<Rightarrow> cnf \<Rightarrow> assignment \<Rightarrow> nat \<Rightarrow> bool
    \<Rightarrow> cnf option \<times> assignment \<times> nat \<times> bool" where
  "eup_for [] clauses a props changed = (Some clauses, a, props, changed)"
| "eup_for (unit_clause # rest) clauses a props changed =
     (let lit = hd unit_clause; var = abs lit; val = (lit > 0) in
      case dict_get a var of
        Some b \<Rightarrow>
          if b \<noteq> val then (None, a, props, changed)
          else eup_for rest clauses a props changed
      | None \<Rightarrow>
          (let a' = dict_set a var val;
               props' = props + 1
           in case eup_simplify clauses lit [] of
                None \<Rightarrow> (None, a', props', True)
              | Some new_clauses \<Rightarrow> eup_for rest new_clauses a' props' True))"

text \<open>The two propagation passes compute the same thing, so the second loop ends too.\<close>

lemma eup_simplify_eq:
  "eup_simplify clauses lit acc =
     (if list_ex (\<lambda>c. length c = 0) (assign_literal clauses lit) then None
      else Some (acc @ assign_literal clauses lit))"
  by (induction clauses arbitrary: acc) (auto simp: assign_literal_def Let_def)

lemma eup_for_eq: "eup_for us clauses a props changed = up_for us clauses a props changed"
  by (induction us arbitrary: clauses a props changed)
     (auto simp: Let_def eup_simplify_eq split: option.splits)

text \<open>
  \<^verbatim>\<open>_exhaustive_unit_propagation\<close>, started by the wrapper below on the empty
  \<^verbatim>\<open>dict\<close>; the third component is \<^verbatim>\<open>metrics.unit_propagations\<close>.
\<close>

function eup_while :: "cnf \<Rightarrow> assignment \<Rightarrow> nat \<Rightarrow> cnf option \<times> assignment \<times> nat" where
  "eup_while clauses a props =
     (let unit_clauses = filter (\<lambda>c. length c = 1) clauses in
      if unit_clauses = [] then (Some clauses, a, props)
      else (case eup_for unit_clauses clauses a props False of
              (None, a', props', changed) \<Rightarrow> (None, a', props')
            | (Some clauses', a', props', changed) \<Rightarrow>
                if changed then eup_while clauses' a' props'
                else (Some clauses', a', props')))"
  by pat_completeness auto
termination
proof (relation "measure (\<lambda>(clauses, a, props). length clauses)")
  show "wf (measure (\<lambda>(clauses, a, props). length clauses))" by simp
next
  fix clauses :: cnf and a :: assignment and props :: nat
    and unit_clauses x1 x2 x2a y x1a x2b x1b x2c
  assume u: "unit_clauses = filter (\<lambda>c. length c = 1) clauses"
    and "(x1, x2) = eup_for unit_clauses clauses a props False"
    and "(x1a, x2b) = x2" "(x1b, x2c) = x2b" "x1 = Some y" "x2c"
  then have r: "up_for unit_clauses clauses a props False = (Some y, x1a, x1b, True)"
    by (simp add: eup_for_eq)
  have "\<forall>w \<in> set unit_clauses. \<exists>l. w = [l] \<and> (dict_get a (abs l) = None \<longrightarrow> w \<in> set clauses)"
    unfolding u by (auto simp: length_Suc_conv)
  from up_for_length [OF r this] have "length y < length clauses" by simp
  then show "((y, x1a, x1b), clauses, a, props) \<in> measure (\<lambda>(clauses, a, props). length clauses)"
    by simp
qed

definition exhaustive_unit_propagation :: "cnf \<Rightarrow> nat \<Rightarrow> cnf option \<times> assignment \<times> nat" where
  "exhaustive_unit_propagation clauses props = eup_while clauses [] props"

text \<open>
  \<^verbatim>\<open>_pure_literal_elimination\<close>: the clauses left and the assignment after the writes.
  The source walks two \<^verbatim>\<open>set\<close>s; the model walks their elements in order of first
  occurrence. The order has no effect on the clauses left, nor on what the assignment
  maps each variable to.
\<close>

definition pure_literal_elimination :: "cnf \<Rightarrow> assignment \<Rightarrow> cnf \<times> assignment" where
  "pure_literal_elimination clauses a =
     (let lits = concat clauses;
          positive = first_occurrences (filter (\<lambda>lit. lit > 0) lits);
          negative = first_occurrences (map uminus (filter (\<lambda>lit. \<not> lit > 0) lits));
          pure_lits = filter (\<lambda>var. var \<notin> set negative) positive
                      @ map uminus (filter (\<lambda>var. var \<notin> set positive) negative)
      in fold (\<lambda>lit acc. (filter (\<lambda>c. lit \<notin> set c) (fst acc),
                           dict_set (snd acc) (abs lit) (lit > 0)))
           pure_lits (clauses, a))"

text \<open>
  \<^verbatim>\<open>_subsumption_elimination\<close>: clause \<open>i\<close> is dropped when some clause at another
  index \<open>j\<close> has \<^verbatim>\<open>c2.issubset(c1)\<close>. The second component is what the call adds to
  \<^verbatim>\<open>clauses_eliminated\<close>.
\<close>

definition subsumed :: "cnf \<Rightarrow> nat \<Rightarrow> bool" where
  "subsumed clauses i =
     list_ex (\<lambda>j. i \<noteq> j \<and> set (clauses ! j) \<subseteq> set (clauses ! i)) [0..<length clauses]"

definition subsumption_elimination :: "cnf \<Rightarrow> cnf \<times> nat" where
  "subsumption_elimination clauses =
     (map (\<lambda>i. clauses ! i) (filter (\<lambda>i. \<not> subsumed clauses i) [0..<length clauses]),
      length (filter (subsumed clauses) [0..<length clauses]))"

text \<open>
  \<^verbatim>\<open>_bounded_variable_elimination\<close>. \<^verbatim>\<open>var_occurrences\<close> is built once, before the loop:
  for every variable, in order of first occurrence, the indices of the clauses where it
  occurs positively and negatively (an index once per occurrence). Inside the loop the
  indices are read against the current clause list: \<^verbatim>\<open>clauses[i]\<close> raises
  \<^verbatim>\<open>IndexError\<close> when the list has become too short. \<^verbatim>\<open>list(resolvent)\<close> lists a
  \<^verbatim>\<open>set\<close>, in an order Python leaves open; the model lists its elements in order of
  first occurrence in the two parent clauses, and the theorems below read the clauses
  that the pass builds as sets of literals. The pass itself reads its clauses through
  \<^verbatim>\<open>set(...)\<close> only, so which clauses it keeps, removes and builds does not depend on
  that order.
\<close>

definition occ_pos :: "cnf \<Rightarrow> int \<Rightarrow> nat list" where
  "occ_pos clauses var =
     concat (map (\<lambda>i. map (\<lambda>lit. i) (filter (\<lambda>lit. lit > 0 \<and> abs lit = var) (clauses ! i)))
               [0..<length clauses])"

definition occ_neg :: "cnf \<Rightarrow> int \<Rightarrow> nat list" where
  "occ_neg clauses var =
     concat (map (\<lambda>i. map (\<lambda>lit. i) (filter (\<lambda>lit. \<not> lit > 0 \<and> abs lit = var) (clauses ! i)))
               [0..<length clauses])"

definition var_occurrences :: "cnf \<Rightarrow> (int \<times> nat list \<times> nat list) list" where
  "var_occurrences clauses =
     map (\<lambda>var. (var, occ_pos clauses var, occ_neg clauses var))
       (first_occurrences (map abs (concat clauses)))"

definition resolvent :: "int \<Rightarrow> clause \<Rightarrow> clause \<Rightarrow> clause" where
  "resolvent var pos_clause neg_clause =
     filter (\<lambda>lit. lit \<noteq> var \<and> lit \<noteq> - var) (first_occurrences (pos_clause @ neg_clause))"

fun bve_loop :: "(int \<times> nat list \<times> nat list) list \<Rightarrow> int \<Rightarrow> cnf \<Rightarrow> nat
    \<Rightarrow> py_error + (cnf \<times> nat)" where
  "bve_loop [] max_new_clauses clauses eliminated = Inr (clauses, eliminated)"
| "bve_loop ((var, pos, neg) # rest) max_new_clauses clauses eliminated =
     (if list_ex (\<lambda>i. \<not> i < length clauses) (pos @ neg) then Inl IndexError
      else
        (let pos_clauses = map (\<lambda>i. clauses ! i) pos;
             neg_clauses = map (\<lambda>i. clauses ! i) neg;
             new_clause_count = length pos_clauses * length neg_clauses
         in if int new_clause_count \<le> max_new_clauses then
              (let kept = map (\<lambda>i. clauses ! i)
                            (filter (\<lambda>i. i \<notin> set pos \<and> i \<notin> set neg) [0..<length clauses]);
                   resolvents =
                     filter (\<lambda>r. r \<noteq> [])
                       (concat (map (\<lambda>pos_clause.
                                  map (\<lambda>neg_clause. resolvent var pos_clause neg_clause) neg_clauses)
                                pos_clauses))
               in bve_loop rest max_new_clauses (kept @ resolvents) (eliminated + 1))
            else bve_loop rest max_new_clauses clauses eliminated))"

text \<open>The second component of the result is what the call adds to \<^verbatim>\<open>vars_eliminated\<close>.\<close>

definition bounded_variable_elimination :: "cnf \<Rightarrow> int \<Rightarrow> py_error + (cnf \<times> nat)" where
  "bounded_variable_elimination clauses max_new_clauses =
     bve_loop (var_occurrences clauses) max_new_clauses clauses 0"

text \<open>
  \<^verbatim>\<open>_preprocess\<close>: \<open>Inl\<close> is the exception that leaves the call, \<open>Inr (None, _)\<close> the
  result \<^verbatim>\<open>None\<close> (a conflict found by unit propagation).
\<close>

definition preprocess :: "PreprocessingDPLL \<Rightarrow> cnf \<Rightarrow> py_error + (cnf option \<times> PreprocessingDPLL)" where
  "preprocess self clauses0 =
     (case exhaustive_unit_propagation clauses0 (unit_propagations (p_metrics self)) of
        (None, a, props) \<Rightarrow>
          Inr (None, self\<lparr>p_metrics := (p_metrics self)\<lparr>unit_propagations := props\<rparr>\<rparr>)
      | (Some clauses1, a, props) \<Rightarrow>
          (let self1 = self\<lparr>p_metrics := (p_metrics self)\<lparr>unit_propagations := props\<rparr>,
                            p_assignment := dict_update (p_assignment self) a\<rparr>;
               ple = pure_literal_elimination clauses1 (p_assignment self1);
               self2 = self1\<lparr>p_assignment := snd ple\<rparr>;
               sub = subsumption_elimination (fst ple);
               self3 = self2\<lparr>p_clauses_eliminated := p_clauses_eliminated self2 + snd sub\<rparr>
           in case bounded_variable_elimination (fst sub) 10 of
                Inl e \<Rightarrow> Inl e
              | Inr bve \<Rightarrow>
                  Inr (Some (fst bve),
                       self3\<lparr>p_vars_eliminated := p_vars_eliminated self3 + snd bve\<rparr>)))"

text \<open>
  \<^verbatim>\<open>PreprocessingDPLL.solve\<close>. The outer option is \<open>None\<close> when the search of the
  inner \<^verbatim>\<open>BaseDPLL\<close> does not return.
\<close>

definition PreprocessingDPLL_solve ::
  "PreprocessingDPLL \<Rightarrow> (py_error + ((string \<times> int list option) \<times> PreprocessingDPLL)) option" where
  "PreprocessingDPLL_solve self =
     (case preprocess (self\<lparr>p_metrics := reset\<rparr>) (p_original_clauses self) of
        Inl e \<Rightarrow> Some (Inl e)
      | Inr (None, self1) \<Rightarrow> Some (Inr ((''UNSAT'', None), self1))
      | Inr (Some clauses, self1) \<Rightarrow>
          if clauses = [] then
            Some (Inr ((''SAT'', Some (build_model (p_num_vars self1) (p_assignment self1))), self1))
          else
            (case BaseDPLL_solve ((BaseDPLL_init clauses (p_num_vars self1))
                                    \<lparr>b_assignment := p_assignment self1\<rparr>) of
               None \<Rightarrow> None
             | Some (result, base_solver) \<Rightarrow>
                 Some (Inr (result,
                   self1\<lparr>p_metrics :=
                     \<lparr>decisions = decisions (b_metrics base_solver),
                      backtracks = backtracks (b_metrics base_solver),
                      unit_propagations = unit_propagations (p_metrics self1)
                                          + unit_propagations (b_metrics base_solver),
                      conflicts = conflicts (b_metrics base_solver)\<rparr>\<rparr>))))"

section \<open>CombinedDPLL\<close>

record CombinedDPLL =
  c_num_vars :: int
  c_original_clauses :: cnf
  c_metrics :: SolverMetrics
  c_assignment :: assignment
  c_phase_cache :: assignment
  c_vars_eliminated :: nat
  c_clauses_eliminated :: nat

definition CombinedDPLL_init :: "cnf \<Rightarrow> int \<Rightarrow> CombinedDPLL" where
  "CombinedDPLL_init clauses num_vars =
     \<lparr>c_num_vars = num_vars, c_original_clauses = clauses, c_metrics = reset,
      c_assignment = [], c_phase_cache = [], c_vars_eliminated = 0, c_clauses_eliminated = 0\<rparr>"

definition CombinedDPLL_solve ::
  "CombinedDPLL \<Rightarrow> (py_error + ((string \<times> int list option) \<times> CombinedDPLL)) option" where
  "CombinedDPLL_solve self =
     (case preprocess (PreprocessingDPLL_init (c_original_clauses self) (c_num_vars self))
             (c_original_clauses self) of
        Inl e \<Rightarrow> Some (Inl e)
      | Inr (clauses_opt, preprocessor) \<Rightarrow>
          (let self1 = self\<lparr>c_metrics := reset\<lparr>unit_propagations :=
                                unit_propagations (p_metrics preprocessor)\<rparr>,
                            c_assignment := dict_update (c_assignment self) (p_assignment preprocessor),
                            c_vars_eliminated := p_vars_eliminated preprocessor,
                            c_clauses_eliminated := p_clauses_eliminated preprocessor\<rparr>
           in case clauses_opt of
                None \<Rightarrow> Some (Inr ((''UNSAT'', None), self1))
              | Some clauses \<Rightarrow>
                  if clauses = [] then
                    Some (Inr ((''SAT'', Some (build_model (c_num_vars self1) (c_assignment self1))),
                               self1))
                  else
                    (case WatchedLiteralsDPLL_solve
                            ((WatchedLiteralsDPLL_init clauses (c_num_vars self1))
                               \<lparr>w_heap := [c_assignment self1], w_assignment := 0\<rparr>) of
                       None \<Rightarrow> None
                     | Some (result, watched_solver) \<Rightarrow>
                         Some (Inr (result,
                           self1\<lparr>c_metrics :=
                             \<lparr>decisions = decisions (w_metrics watched_solver),
                              backtracks = backtracks (w_metrics watched_solver),
                              unit_propagations = unit_propagations (c_metrics self1)
                                + unit_propagations (w_metrics watched_solver),
                              conflicts = conflicts (w_metrics watched_solver)\<rparr>\<rparr>)))))"

section \<open>The solver factory\<close>

datatype solver =
  Base BaseDPLL | Watched WatchedLiteralsDPLL
  | Preprocessing PreprocessingDPLL | Combined CombinedDPLL

definition get_solver :: "string \<Rightarrow> cnf \<Rightarrow> int \<Rightarrow> py_error + solver" where
  "get_solver variant clauses num_vars =
     (if variant = ''base'' then Inr (Base (BaseDPLL_init clauses num_vars))
      else if variant = ''watched'' then Inr (Watched (WatchedLiteralsDPLL_init clauses num_vars))
      else if variant = ''preprocessing'' then
        Inr (Preprocessing (PreprocessingDPLL_init clauses num_vars))
      else if variant = ''combined'' then Inr (Combined (CombinedDPLL_init clauses num_vars))
      else Inl ValueError)"

text \<open>
  \<^verbatim>\<open>solver.solve()\<close> on the object the factory returned (dynamic dispatch), with the
  object after the call, and \<^verbatim>\<open>solver.metrics\<close>.
\<close>

fun solve :: "solver \<Rightarrow> (py_error + ((string \<times> int list option) \<times> solver)) option" where
  "solve (Base s) = map_option (\<lambda>r. Inr (fst r, Base (snd r))) (BaseDPLL_solve s)"
| "solve (Watched s) = map_option (\<lambda>r. Inr (fst r, Watched (snd r))) (WatchedLiteralsDPLL_solve s)"
| "solve (Preprocessing s) =
     map_option (map_sum id (\<lambda>r. (fst r, Preprocessing (snd r)))) (PreprocessingDPLL_solve s)"
| "solve (Combined s) =
     map_option (map_sum id (\<lambda>r. (fst r, Combined (snd r)))) (CombinedDPLL_solve s)"

fun metrics :: "solver \<Rightarrow> SolverMetrics" where
  "metrics (Base s) = b_metrics s"
| "metrics (Watched s) = w_metrics s"
| "metrics (Preprocessing s) = p_metrics s"
| "metrics (Combined s) = c_metrics s"

text \<open>
  \<^verbatim>\<open>get_solver(variant, clauses, num_vars).solve()\<close> in one step: the status and the
  model, and the metrics read afterwards.
\<close>

definition run :: "string \<Rightarrow> cnf \<Rightarrow> int \<Rightarrow> (py_error + (string \<times> int list option) \<times> SolverMetrics) option" where
  "run variant clauses num_vars =
     (case get_solver variant clauses num_vars of
        Inl e \<Rightarrow> Some (Inl e)
      | Inr s \<Rightarrow> map_option (map_sum id (\<lambda>r. (fst r, metrics (snd r)))) (solve s))"

section \<open>The encoder of \<^verbatim>\<open>encoder.py\<close>\<close>

text \<open>
  \<^verbatim>\<open>SATSolver.__init__\<close> reads the file into \<^verbatim>\<open>sudoku_grid\<close>: one list of integers for
  every non-blank line. The model starts from that grid (the text of the file is taken
  as read) and \<open>N\<close> is the number of its lines.
\<close>

record Variable =
  row :: int
  col :: int
  val :: int
  neg :: bool

definition map_variable :: "int \<Rightarrow> Variable \<Rightarrow> int" where
  "map_variable N var =
     (let num = row var * N * N + col var * N + val var
      in if \<not> neg var then num else - num)"

text \<open>
  \<^verbatim>\<open>generate_model\<close>: the clue clauses. \<^verbatim>\<open>self.sudoku_grid[i][j]\<close> raises
  \<^verbatim>\<open>IndexError\<close> when line \<open>i\<close> has no entry \<open>j\<close>.
\<close>

fun generate_model_row :: "int list \<Rightarrow> int \<Rightarrow> int list \<Rightarrow> py_error + Variable list list" where
  "generate_model_row line i [] = Inr []"
| "generate_model_row line i (j # js) =
     (if nat j < length line then
        (case generate_model_row line i js of
           Inl e \<Rightarrow> Inl e
         | Inr cs \<Rightarrow>
             Inr (if line ! nat j = 0 then cs
                  else [\<lparr>row = i, col = j, val = line ! nat j, neg = False\<rparr>] # cs))
      else Inl IndexError)"

fun generate_model_rows :: "int \<Rightarrow> int \<Rightarrow> int list list \<Rightarrow> py_error + Variable list list" where
  "generate_model_rows N i [] = Inr []"
| "generate_model_rows N i (line # rest) =
     (case generate_model_row line i [0..N - 1] of
        Inl e \<Rightarrow> Inl e
      | Inr cs \<Rightarrow>
          (case generate_model_rows N (i + 1) rest of
             Inl e \<Rightarrow> Inl e
           | Inr cs' \<Rightarrow> Inr (cs @ cs')))"

definition generate_model :: "int list list \<Rightarrow> py_error + Variable list list" where
  "generate_model sudoku_grid = generate_model_rows (int (length sudoku_grid)) 0 sudoku_grid"

definition generate_rule1_one_per_cell :: "int \<Rightarrow> Variable list list" where
  "generate_rule1_one_per_cell N =
     concat (map (\<lambda>i. concat (map (\<lambda>j.
       [map (\<lambda>v. \<lparr>row = i, col = j, val = v, neg = False\<rparr>) [1..N]]
       @ concat (map (\<lambda>v1. map (\<lambda>v2.
           [\<lparr>row = i, col = j, val = v1, neg = True\<rparr>, \<lparr>row = i, col = j, val = v2, neg = True\<rparr>])
           [v1 + 1..N]) [1..N]))
       [0..N - 1])) [0..N - 1])"

definition generate_rule2_row_constraint :: "int \<Rightarrow> Variable list list" where
  "generate_rule2_row_constraint N =
     concat (map (\<lambda>r. concat (map (\<lambda>v.
       [map (\<lambda>c. \<lparr>row = r, col = c, val = v, neg = False\<rparr>) [0..N - 1]]
       @ concat (map (\<lambda>c1. map (\<lambda>c2.
           [\<lparr>row = r, col = c1, val = v, neg = True\<rparr>, \<lparr>row = r, col = c2, val = v, neg = True\<rparr>])
           [c1 + 1..N - 1]) [0..N - 1]))
       [1..N])) [0..N - 1])"

definition generate_rule3_col_constraint :: "int \<Rightarrow> Variable list list" where
  "generate_rule3_col_constraint N =
     concat (map (\<lambda>c. concat (map (\<lambda>v.
       [map (\<lambda>r. \<lparr>row = r, col = c, val = v, neg = False\<rparr>) [0..N - 1]]
       @ concat (map (\<lambda>r1. map (\<lambda>r2.
           [\<lparr>row = r1, col = c, val = v, neg = True\<rparr>, \<lparr>row = r2, col = c, val = v, neg = True\<rparr>])
           [r1 + 1..N - 1]) [0..N - 1]))
       [1..N])) [0..N - 1])"

text \<open>
  \<^verbatim>\<open>n = int(self.N ** 0.5)\<close>: the integer part of the square root. The float
  computation is taken as exact, which it is for every grid size a file can hold
  (below \<open>2\<^sup>5\<^sup>2\<close>).
\<close>

function isqrt_from :: "nat \<Rightarrow> nat \<Rightarrow> nat" where
  "isqrt_from N k = (if (k + 1) * (k + 1) \<le> N then isqrt_from N (k + 1) else k)"
  by pat_completeness auto
termination
proof (relation "measure (\<lambda>(N, k). N - k)")
  show "wf (measure (\<lambda>(N, k). N - k))" by simp
next
  fix N k :: nat
  assume "(k + 1) * (k + 1) \<le> N"
  moreover have "k + 1 \<le> (k + 1) * (k + 1)" by simp
  ultimately have "k < N" by linarith
  then show "((N, k + 1), (N, k)) \<in> measure (\<lambda>(N, k). N - k)" by simp
qed

definition isqrt :: "nat \<Rightarrow> nat" where
  "isqrt N = isqrt_from N 0"

definition box_cells :: "int \<Rightarrow> int \<Rightarrow> int \<Rightarrow> (int \<times> int) list" where
  "box_cells n box_row box_col =
     concat (map (\<lambda>i. map (\<lambda>j. (box_row * n + i, box_col * n + j)) [0..n - 1]) [0..n - 1])"

text \<open>The clauses of one box and one value: at least one cell, and no two cells.\<close>

definition box_value_clauses :: "(int \<times> int) list \<Rightarrow> int \<Rightarrow> Variable list list" where
  "box_value_clauses cells v =
     [map (\<lambda>cell. \<lparr>row = fst cell, col = snd cell, val = v, neg = False\<rparr>) cells]
     @ concat (map (\<lambda>idx1. map (\<lambda>idx2.
         [\<lparr>row = fst (cells ! idx1), col = snd (cells ! idx1), val = v, neg = True\<rparr>,
          \<lparr>row = fst (cells ! idx2), col = snd (cells ! idx2), val = v, neg = True\<rparr>])
         [idx1 + 1..<length cells]) [0..<length cells])"

definition generate_rule4_box_constraint :: "int \<Rightarrow> Variable list list" where
  "generate_rule4_box_constraint N =
     (let n = int (isqrt (nat N)) in
      concat (map (\<lambda>box_row. concat (map (\<lambda>box_col.
        concat (map (box_value_clauses (box_cells n box_row box_col)) [1..N]))
        [0..n - 1])) [0..n - 1]))"

definition adjacent :: "int \<Rightarrow> int \<Rightarrow> int \<Rightarrow> (int \<times> int) list" where
  "adjacent N i j =
     (if i > 0 then [(i - 1, j)] else [])
     @ (if i < N - 1 then [(i + 1, j)] else [])
     @ (if j > 0 then [(i, j - 1)] else [])
     @ (if j < N - 1 then [(i, j + 1)] else [])"

text \<open>The body of the loop over the adjacent cells: at most two clauses.\<close>

definition non_consecutive_clauses :: "int \<Rightarrow> int \<Rightarrow> int \<Rightarrow> int \<Rightarrow> int \<times> int \<Rightarrow> Variable list list" where
  "non_consecutive_clauses N i j v adj =
     (if v > 1 then
        [[\<lparr>row = i, col = j, val = v, neg = True\<rparr>,
          \<lparr>row = fst adj, col = snd adj, val = v - 1, neg = True\<rparr>]]
      else [])
     @ (if v < N then
        [[\<lparr>row = i, col = j, val = v, neg = True\<rparr>,
          \<lparr>row = fst adj, col = snd adj, val = v + 1, neg = True\<rparr>]]
      else [])"

definition generate_rule5_non_consecutive :: "int \<Rightarrow> Variable list list" where
  "generate_rule5_non_consecutive N =
     concat (map (\<lambda>i. concat (map (\<lambda>j. concat (map (\<lambda>v.
       concat (map (non_consecutive_clauses N i j v) (adjacent N i j)))
       [1..N])) [0..N - 1])) [0..N - 1])"

text \<open>
  \<^verbatim>\<open>encode\<close> (it calls \<^verbatim>\<open>generate_rule5_non_consecutive\<close> twice and keeps the second
  result), and \<^verbatim>\<open>to_cnf\<close>, which builds the object and encodes.
\<close>

definition encode :: "int list list \<Rightarrow> py_error + (cnf \<times> int)" where
  "encode sudoku_grid =
     (let N = int (length sudoku_grid) in
      case generate_model sudoku_grid of
        Inl e \<Rightarrow> Inl e
      | Inr model_clauses \<Rightarrow>
          Inr (map (map (map_variable N))
                 (model_clauses @ generate_rule1_one_per_cell N @ generate_rule2_row_constraint N
                  @ generate_rule3_col_constraint N @ generate_rule4_box_constraint N
                  @ generate_rule5_non_consecutive N),
               N ^ 3))"

definition to_cnf :: "int list list \<Rightarrow> py_error + (cnf \<times> int)" where
  "to_cnf sudoku_grid = encode sudoku_grid"

section \<open>Properties of the encoder\<close>

text \<open>
  The variables the encoder may use for a grid of size \<open>N\<close>: row and column in
  \<open>0..N-1\<close>, value in \<open>1..N\<close>.
\<close>

definition var_in_range :: "int \<Rightarrow> Variable \<Rightarrow> bool" where
  "var_in_range N v =
     (0 \<le> row v \<and> row v < N \<and> 0 \<le> col v \<and> col v < N \<and> 1 \<le> val v \<and> val v \<le> N)"

text \<open>
  A well-formed grid: every line has as many entries as there are lines, each in
  \<open>0..N\<close>.
\<close>

definition well_formed_grid :: "int list list \<Rightarrow> bool" where
  "well_formed_grid grid =
     list_all (\<lambda>line. length line = length grid
                \<and> list_all (\<lambda>x. 0 \<le> x \<and> x \<le> int (length grid)) line) grid"

lemma adjacent_in_range:
  assumes "adj \<in> set (adjacent N i j)" "0 \<le> i" "i < N" "0 \<le> j" "j < N"
  shows "0 \<le> fst adj \<and> fst adj < N \<and> 0 \<le> snd adj \<and> snd adj < N"
proof -
  from assms(1) have "adj = (i - 1, j) \<and> i > 0 \<or> adj = (i + 1, j) \<and> i < N - 1
      \<or> adj = (i, j - 1) \<and> j > 0 \<or> adj = (i, j + 1) \<and> j < N - 1"
    unfolding adjacent_def by (auto split: if_splits)
  with assms(2-) show ?thesis by auto
qed

lemma non_consecutive_in_range:
  assumes "c \<in> set (non_consecutive_clauses N i j w adj)" "v \<in> set c"
    and "0 \<le> i" "i < N" "0 \<le> j" "j < N" "1 \<le> w" "w \<le> N"
    and "0 \<le> fst adj \<and> fst adj < N \<and> 0 \<le> snd adj \<and> snd adj < N"
  shows "var_in_range N v"
  using assms unfolding non_consecutive_clauses_def var_in_range_def
  by (auto split: if_splits)

lemma rule5_in_range:
  assumes "c \<in> set (generate_rule5_non_consecutive N)" "v \<in> set c"
  shows "var_in_range N v"
proof -
  from assms(1) obtain i j w adj where ij: "0 \<le> i" "i < N" "0 \<le> j" "j < N"
    and w: "1 \<le> w" "w \<le> N" and adj: "adj \<in> set (adjacent N i j)"
    and c: "c \<in> set (non_consecutive_clauses N i j w adj)"
    unfolding generate_rule5_non_consecutive_def by auto
  from non_consecutive_in_range [OF c assms(2) ij w adjacent_in_range [OF adj ij]]
  show ?thesis .
qed

lemma isqrt_from_le: "k * k \<le> N \<Longrightarrow> isqrt_from N k * isqrt_from N k \<le> N"
proof (induction N k rule: isqrt_from.induct)
  case (1 N k)
  show ?case
  proof (cases "(k + 1) * (k + 1) \<le> N")
    case True
    then show ?thesis using "1.IH" by (subst (1 2) isqrt_from.simps) simp
  next
    case False
    then show ?thesis using "1.prems" by (subst (1 2) isqrt_from.simps) simp
  qed
qed

lemma isqrt_le: "isqrt N * isqrt N \<le> N"
  unfolding isqrt_def by (rule isqrt_from_le) simp

lemma box_cells_in_range:
  assumes "cell \<in> set (box_cells n box_row box_col)"
    and "0 \<le> box_row" "box_row \<le> n - 1" "0 \<le> box_col" "box_col \<le> n - 1" "n * n \<le> N"
  shows "0 \<le> fst cell \<and> fst cell < N \<and> 0 \<le> snd cell \<and> snd cell < N"
proof -
  from assms(1) obtain i j where ij: "0 \<le> i" "i \<le> n - 1" "0 \<le> j" "j \<le> n - 1"
    and cell: "cell = (box_row * n + i, box_col * n + j)"
    unfolding box_cells_def by auto
  have n: "0 \<le> n" using ij by linarith
  have "box_row * n \<le> (n - 1) * n" using assms(3) n by (intro mult_right_mono) simp_all
  then have r: "box_row * n + i < N" using ij(2) assms(6) by (simp add: algebra_simps)
  have "box_col * n \<le> (n - 1) * n" using assms(5) n by (intro mult_right_mono) simp_all
  then have c: "box_col * n + j < N" using ij(4) assms(6) by (simp add: algebra_simps)
  have "0 \<le> box_row * n" "0 \<le> box_col * n" using assms(2,4) n by simp_all
  with r c ij cell show ?thesis by simp
qed

lemma in_concat_map: "c \<in> set (concat (map f xs)) \<Longrightarrow> \<exists>x \<in> set xs. c \<in> set (f x)"
  by auto

lemma in_map: "c \<in> set (map f xs) \<Longrightarrow> \<exists>x \<in> set xs. c = f x"
  by auto

lemma box_value_clauses_cell:
  assumes "c \<in> set (box_value_clauses cells w)" "v \<in> set c"
  shows "\<exists>k < length cells. row v = fst (cells ! k) \<and> col v = snd (cells ! k) \<and> val v = w"
proof -
  from assms(1) consider
    "c \<in> set [map (\<lambda>cell. \<lparr>row = fst cell, col = snd cell, val = w, neg = False\<rparr>) cells]"
    | "c \<in> set (concat (map (\<lambda>idx1. map (\<lambda>idx2.
         [\<lparr>row = fst (cells ! idx1), col = snd (cells ! idx1), val = w, neg = True\<rparr>,
          \<lparr>row = fst (cells ! idx2), col = snd (cells ! idx2), val = w, neg = True\<rparr>])
         [idx1 + 1..<length cells]) [0..<length cells]))"
    unfolding box_value_clauses_def by (simp only: set_append Un_iff) blast
  then show ?thesis
  proof cases
    case 1
    with assms(2) show ?thesis by (auto simp: in_set_conv_nth)
  next
    case 2
    from in_concat_map [OF this] obtain idx1 where i1: "idx1 \<in> set [0..<length cells]"
      and "c \<in> set (map (\<lambda>idx2.
         [\<lparr>row = fst (cells ! idx1), col = snd (cells ! idx1), val = w, neg = True\<rparr>,
          \<lparr>row = fst (cells ! idx2), col = snd (cells ! idx2), val = w, neg = True\<rparr>])
         [idx1 + 1..<length cells])"
      by blast
    from in_map [OF this(2)] obtain idx2 where i2: "idx2 \<in> set [idx1 + 1..<length cells]"
      and c: "c = [\<lparr>row = fst (cells ! idx1), col = snd (cells ! idx1), val = w, neg = True\<rparr>,
                   \<lparr>row = fst (cells ! idx2), col = snd (cells ! idx2), val = w, neg = True\<rparr>]"
      by blast
    from i1 i2 have i: "idx1 < length cells" "idx2 < length cells" by simp_all
    from c assms(2) have "v = \<lparr>row = fst (cells ! idx1), col = snd (cells ! idx1), val = w, neg = True\<rparr>
        \<or> v = \<lparr>row = fst (cells ! idx2), col = snd (cells ! idx2), val = w, neg = True\<rparr>"
      by simp
    then show ?thesis
    proof
      assume "v = \<lparr>row = fst (cells ! idx1), col = snd (cells ! idx1), val = w, neg = True\<rparr>"
      then show ?thesis using i(1) by (intro exI [of _ idx1]) simp
    next
      assume "v = \<lparr>row = fst (cells ! idx2), col = snd (cells ! idx2), val = w, neg = True\<rparr>"
      then show ?thesis using i(2) by (intro exI [of _ idx2]) simp
    qed
  qed
qed

lemma rule4_in_range:
  assumes "c \<in> set (generate_rule4_box_constraint N)" "v \<in> set c" "0 \<le> N"
  shows "var_in_range N v"
proof -
  define n where "n = int (isqrt (nat N))"
  have nn: "n * n \<le> N"
  proof -
    have "int (isqrt (nat N) * isqrt (nat N)) \<le> int (nat N)"
      using isqrt_le [of "nat N"] by (simp only: of_nat_le_iff)
    then show ?thesis using assms(3) by (simp add: n_def)
  qed
  from assms(1) obtain box_row box_col w where b: "0 \<le> box_row" "box_row \<le> n - 1"
      "0 \<le> box_col" "box_col \<le> n - 1" and w: "1 \<le> w" "w \<le> N"
    and c: "c \<in> set (box_value_clauses (box_cells n box_row box_col) w)"
    unfolding generate_rule4_box_constraint_def n_def [symmetric] Let_def by auto
  from box_value_clauses_cell [OF c assms(2)] obtain k
    where k: "k < length (box_cells n box_row box_col)"
      and v: "row v = fst (box_cells n box_row box_col ! k)"
        "col v = snd (box_cells n box_row box_col ! k)" "val v = w" by blast
  from k have cell: "box_cells n box_row box_col ! k \<in> set (box_cells n box_row box_col)"
    by simp
  from box_cells_in_range [OF cell b nn] v w show ?thesis
    by (simp add: var_in_range_def)
qed

lemma map_variable_range:
  assumes "var_in_range N v"
  shows "1 \<le> abs (map_variable N v) \<and> abs (map_variable N v) \<le> N ^ 3"
proof -
  let ?num = "row v * N * N + col v * N + val v"
  from assms have r: "0 \<le> row v" "row v \<le> N - 1" and c: "0 \<le> col v" "col v \<le> N - 1"
    and w: "1 \<le> val v" "val v \<le> N" and N: "0 \<le> N"
    by (auto simp: var_in_range_def)
  have "0 \<le> row v * N * N" using r(1) N by simp
  moreover have "0 \<le> col v * N" using c(1) N by simp
  ultimately have lo: "1 \<le> ?num" using w(1) by linarith
  have "row v * (N * N) \<le> (N - 1) * (N * N)"
    using r(2) N by (intro mult_right_mono) simp_all
  moreover have "col v * N \<le> (N - 1) * N"
    using c(2) N by (intro mult_right_mono) simp_all
  ultimately have "?num \<le> (N - 1) * (N * N) + (N - 1) * N + N"
    using w(2) by (simp add: mult.assoc)
  also have "\<dots> = N ^ 3" by (simp add: power3_eq_cube algebra_simps)
  finally have hi: "?num \<le> N ^ 3" .
  show ?thesis using lo hi by (simp add: map_variable_def Let_def)
qed


lemma rule1_in_range:
  "c \<in> set (generate_rule1_one_per_cell N) \<Longrightarrow> v \<in> set c \<Longrightarrow> var_in_range N v"
  by (auto simp: generate_rule1_one_per_cell_def var_in_range_def)

lemma rule2_in_range:
  "c \<in> set (generate_rule2_row_constraint N) \<Longrightarrow> v \<in> set c \<Longrightarrow> var_in_range N v"
  by (auto simp: generate_rule2_row_constraint_def var_in_range_def)

lemma rule3_in_range:
  "c \<in> set (generate_rule3_col_constraint N) \<Longrightarrow> v \<in> set c \<Longrightarrow> var_in_range N v"
  by (auto simp: generate_rule3_col_constraint_def var_in_range_def)



lemma generate_model_row_ok:
  assumes "\<forall>j \<in> set js. nat j < length line"
  shows "\<exists>cs. generate_model_row line i js = Inr cs
           \<and> (\<forall>c \<in> set cs. \<forall>v \<in> set c. row v = i \<and> col v \<in> set js \<and> val v \<in> set line \<and> val v \<noteq> 0)"
  using assms
proof (induction js)
  case Nil
  then show ?case by simp
next
  case (Cons j js)
  then obtain cs where cs: "generate_model_row line i js = Inr cs"
    and inv: "\<forall>c \<in> set cs. \<forall>v \<in> set c. row v = i \<and> col v \<in> set js \<and> val v \<in> set line \<and> val v \<noteq> 0"
    by auto
  from Cons.prems have j: "nat j < length line" by simp
  then have mem: "line ! nat j \<in> set line" by simp
  show ?case
  proof (cases "line ! nat j = 0")
    case True
    with cs j inv show ?thesis by auto
  next
    case False
    with cs j inv mem show ?thesis by auto
  qed
qed

lemma short_line_iff:
  "(\<exists>j \<in> set [0..N - 1]. \<not> nat j < length line) \<longleftrightarrow> int (length line) < N"
proof
  assume "\<exists>j \<in> set [0..N - 1]. \<not> nat j < length line"
  then obtain j where "0 \<le> j" "j \<le> N - 1" "\<not> nat j < length line" by auto
  then show "int (length line) < N" by linarith
next
  assume "int (length line) < N"
  then have "int (length line) \<in> set [0..N - 1]" "\<not> nat (int (length line)) < length line"
    by simp_all
  then show "\<exists>j \<in> set [0..N - 1]. \<not> nat j < length line" by blast
qed


lemma generate_model_rows_ok:
  assumes "\<forall>line \<in> set rows. \<not> int (length line) < N"
  shows "\<exists>cs. generate_model_rows N i rows = Inr cs
           \<and> (\<forall>c \<in> set cs. \<forall>v \<in> set c. i \<le> row v \<and> row v < i + int (length rows)
                 \<and> 0 \<le> col v \<and> col v < N \<and> (\<exists>line \<in> set rows. val v \<in> set line) \<and> val v \<noteq> 0)"
  using assms
proof (induction rows arbitrary: i)
  case Nil
  then show ?case by simp
next
  case (Cons line rows)
  from Cons.prems have "\<not> (\<exists>j \<in> set [0..N - 1]. \<not> nat j < length line)"
    by (simp only: short_line_iff) simp
  then have "\<forall>j \<in> set [0..N - 1]. nat j < length line" by blast
  from generate_model_row_ok [OF this, of i] obtain cs
    where cs: "generate_model_row line i [0..N - 1] = Inr cs"
      and inv: "\<forall>c \<in> set cs. \<forall>v \<in> set c.
                  row v = i \<and> col v \<in> set [0..N - 1] \<and> val v \<in> set line \<and> val v \<noteq> 0"
    by blast
  from Cons.prems have "\<forall>line \<in> set rows. \<not> int (length line) < N" by simp
  from Cons.IH [OF this, of "i + 1"] obtain cs'
    where cs': "generate_model_rows N (i + 1) rows = Inr cs'"
      and inv': "\<forall>c \<in> set cs'. \<forall>v \<in> set c. i + 1 \<le> row v \<and> row v < i + 1 + int (length rows)
                 \<and> 0 \<le> col v \<and> col v < N \<and> (\<exists>line \<in> set rows. val v \<in> set line) \<and> val v \<noteq> 0"
    by blast
  have "generate_model_rows N i (line # rows) = Inr (cs @ cs')" using cs cs' by simp
  moreover have "\<forall>c \<in> set (cs @ cs'). \<forall>v \<in> set c. i \<le> row v \<and> row v < i + int (length (line # rows))
                 \<and> 0 \<le> col v \<and> col v < N \<and> (\<exists>l \<in> set (line # rows). val v \<in> set l) \<and> val v \<noteq> 0"
  proof (intro ballI)
    fix c v assume c: "c \<in> set (cs @ cs')" and v: "v \<in> set c"
    from c have "c \<in> set cs \<or> c \<in> set cs'" by simp
    then show "i \<le> row v \<and> row v < i + int (length (line # rows))
                 \<and> 0 \<le> col v \<and> col v < N \<and> (\<exists>l \<in> set (line # rows). val v \<in> set l) \<and> val v \<noteq> 0"
    proof
      assume "c \<in> set cs"
      with inv v have "row v = i \<and> col v \<in> set [0..N - 1] \<and> val v \<in> set line \<and> val v \<noteq> 0" by blast
      then show ?thesis by auto
    next
      assume "c \<in> set cs'"
      with inv' v have "i + 1 \<le> row v \<and> row v < i + 1 + int (length rows)
                 \<and> 0 \<le> col v \<and> col v < N \<and> (\<exists>line \<in> set rows. val v \<in> set line) \<and> val v \<noteq> 0" by blast
      then show ?thesis by auto
    qed
  qed
  ultimately show ?case by blast
qed



text \<open>
  Every clause the encoder builds is of one polarity: its variables are all negated or
  all plain.
\<close>

definition same_polarity :: "Variable list \<Rightarrow> bool" where
  "same_polarity c = (list_all neg c \<or> list_all (\<lambda>v. \<not> neg v) c)"

lemma rule1_polarity: "c \<in> set (generate_rule1_one_per_cell N) \<Longrightarrow> same_polarity c"
  by (auto simp: generate_rule1_one_per_cell_def same_polarity_def list_all_iff)

lemma rule2_polarity: "c \<in> set (generate_rule2_row_constraint N) \<Longrightarrow> same_polarity c"
  by (auto simp: generate_rule2_row_constraint_def same_polarity_def list_all_iff)

lemma rule3_polarity: "c \<in> set (generate_rule3_col_constraint N) \<Longrightarrow> same_polarity c"
  by (auto simp: generate_rule3_col_constraint_def same_polarity_def list_all_iff)

lemma box_value_polarity: "c \<in> set (box_value_clauses cells w) \<Longrightarrow> same_polarity c"
  by (auto simp: box_value_clauses_def same_polarity_def list_all_iff)

lemma rule4_polarity: "c \<in> set (generate_rule4_box_constraint N) \<Longrightarrow> same_polarity c"
  by (auto simp: generate_rule4_box_constraint_def Let_def box_value_polarity)

lemma non_consecutive_polarity: "c \<in> set (non_consecutive_clauses N i j w adj) \<Longrightarrow> same_polarity c"
  by (auto simp: non_consecutive_clauses_def same_polarity_def split: if_splits)

lemma rule5_polarity: "c \<in> set (generate_rule5_non_consecutive N) \<Longrightarrow> same_polarity c"
  by (auto simp: generate_rule5_non_consecutive_def non_consecutive_polarity)


lemma generate_model_row_polarity:
  "generate_model_row line i js = Inr cs \<Longrightarrow> c \<in> set cs \<Longrightarrow> same_polarity c"
proof (induction js arbitrary: cs)
  case Nil
  then show ?case by simp
next
  case (Cons j js)
  from Cons.prems(1) obtain cs' where cs': "generate_model_row line i js = Inr cs'"
    and cs: "cs = (if line ! nat j = 0 then cs'
                   else [\<lparr>row = i, col = j, val = line ! nat j, neg = False\<rparr>] # cs')"
    by (auto split: if_splits sum.splits)
  from Cons.prems(2) cs have "c \<in> set cs' \<or> c = [\<lparr>row = i, col = j, val = line ! nat j, neg = False\<rparr>]"
    by (auto split: if_splits)
  then show ?case
  proof
    assume "c \<in> set cs'"
    with cs' show ?thesis by (rule Cons.IH)
  next
    assume "c = [\<lparr>row = i, col = j, val = line ! nat j, neg = False\<rparr>]"
    then show ?thesis by (simp add: same_polarity_def)
  qed
qed

lemma generate_model_rows_polarity:
  "generate_model_rows N i rows = Inr cs \<Longrightarrow> c \<in> set cs \<Longrightarrow> same_polarity c"
proof (induction rows arbitrary: i cs)
  case Nil
  then show ?case by simp
next
  case (Cons line rows)
  from Cons.prems(1) obtain cs1 cs2 where cs1: "generate_model_row line i [0..N - 1] = Inr cs1"
    and cs2: "generate_model_rows N (i + 1) rows = Inr cs2" and cs: "cs = cs1 @ cs2"
    by (auto split: sum.splits)
  from Cons.prems(2) cs have "c \<in> set cs1 \<or> c \<in> set cs2" by simp
  then show ?case
  proof
    assume "c \<in> set cs1"
    with cs1 show ?thesis by (rule generate_model_row_polarity)
  next
    assume "c \<in> set cs2"
    with cs2 show ?thesis by (rule Cons.IH)
  qed
qed

text \<open>What \<^verbatim>\<open>encode\<close> returns for a well-formed grid, before the variables are numbered.\<close>

lemma encode_well_formed:
  assumes "well_formed_grid grid"
  shows "\<exists>cs. to_cnf grid = Inr (map (map (map_variable (int (length grid)))) cs, int (length grid) ^ 3)
           \<and> (\<forall>c \<in> set cs. same_polarity c \<and> (\<forall>v \<in> set c. var_in_range (int (length grid)) v))"
proof -
  let ?N = "int (length grid)"
  from assms have len: "\<forall>line \<in> set grid. length line = length grid"
    and vals: "\<forall>line \<in> set grid. \<forall>x \<in> set line. 0 \<le> x \<and> x \<le> ?N"
    by (auto simp: well_formed_grid_def list_all_iff)
  from len have "\<forall>line \<in> set grid. \<not> int (length line) < ?N" by simp
  from generate_model_rows_ok [OF this, of 0] obtain cs
    where cs: "generate_model grid = Inr cs"
      and inv: "\<forall>c \<in> set cs. \<forall>v \<in> set c. 0 \<le> row v \<and> row v < 0 + ?N
                 \<and> 0 \<le> col v \<and> col v < ?N \<and> (\<exists>line \<in> set grid. val v \<in> set line) \<and> val v \<noteq> 0"
    unfolding generate_model_def by blast
  have model_ok: "var_in_range ?N v" if "c \<in> set cs" "v \<in> set c" for c v
  proof -
    from inv that have v: "0 \<le> row v" "row v < ?N" "0 \<le> col v" "col v < ?N" "val v \<noteq> 0"
      and "\<exists>line \<in> set grid. val v \<in> set line" by auto
    then obtain line where "line \<in> set grid" "val v \<in> set line" by blast
    with vals have "0 \<le> val v" "val v \<le> ?N" by auto
    with v show ?thesis by (simp add: var_in_range_def)
  qed
  have model_pol: "same_polarity c" if "c \<in> set cs" for c
    using cs that unfolding generate_model_def by (rule generate_model_rows_polarity)
  let ?all = "cs @ generate_rule1_one_per_cell ?N @ generate_rule2_row_constraint ?N
                @ generate_rule3_col_constraint ?N @ generate_rule4_box_constraint ?N
                @ generate_rule5_non_consecutive ?N"
  have all_ok: "same_polarity c \<and> (\<forall>v \<in> set c. var_in_range ?N v)" if "c \<in> set ?all" for c
  proof -
    from that consider "c \<in> set cs" | "c \<in> set (generate_rule1_one_per_cell ?N)"
      | "c \<in> set (generate_rule2_row_constraint ?N)" | "c \<in> set (generate_rule3_col_constraint ?N)"
      | "c \<in> set (generate_rule4_box_constraint ?N)" | "c \<in> set (generate_rule5_non_consecutive ?N)"
      by (simp only: set_append Un_iff) blast
    then show ?thesis
    proof cases
      case 1 then show ?thesis using model_ok model_pol by blast
    next
      case 2 then show ?thesis using rule1_in_range rule1_polarity by blast
    next
      case 3 then show ?thesis using rule2_in_range rule2_polarity by blast
    next
      case 4 then show ?thesis using rule3_in_range rule3_polarity by blast
    next
      case 5
      have "0 \<le> ?N" by simp
      with 5 show ?thesis using rule4_in_range rule4_polarity by blast
    next
      case 6 then show ?thesis using rule5_in_range rule5_polarity by blast
    qed
  qed
  have "to_cnf grid = Inr (map (map (map_variable ?N)) ?all, ?N ^ 3)"
    using cs by (simp add: to_cnf_def encode_def Let_def)
  with all_ok show ?thesis by blast
qed

lemma map_variable_sign:
  assumes "var_in_range N v"
  shows "map_variable N v > 0 \<longleftrightarrow> \<not> neg v"
proof -
  from assms have "0 \<le> row v * N * N" "0 \<le> col v * N" "1 \<le> val v"
    by (auto simp: var_in_range_def)
  then have "0 < row v * N * N + col v * N + val v" by linarith
  then show ?thesis by (simp add: map_variable_def Let_def)
qed

text \<open>
  Claim C8: for a well-formed grid of size \<open>N\<close>, \<^verbatim>\<open>to_cnf\<close> returns, the number of
  variables it returns is \<open>N\<^sup>3\<close>, and every literal \<open>l\<close> of every clause has
  \<open>1 \<le> |l| \<le> N\<^sup>3\<close>. (The proof does not need \<open>N\<close> to be a perfect square.)
\<close>

theorem C8_literals_in_range:
  assumes "well_formed_grid grid"
  shows "\<exists>clauses. to_cnf grid = Inr (clauses, int (length grid) ^ 3)
           \<and> (\<forall>c \<in> set clauses. \<forall>l \<in> set c. 1 \<le> abs l \<and> abs l \<le> int (length grid) ^ 3)"
proof -
  let ?N = "int (length grid)"
  from encode_well_formed [OF assms] obtain cs
    where eq: "to_cnf grid = Inr (map (map (map_variable ?N)) cs, ?N ^ 3)"
      and ok: "\<forall>c \<in> set cs. \<forall>v \<in> set c. var_in_range ?N v" by blast
  have "\<forall>c \<in> set (map (map (map_variable ?N)) cs). \<forall>l \<in> set c. 1 \<le> abs l \<and> abs l \<le> ?N ^ 3"
  proof (intro ballI)
    fix c l assume "c \<in> set (map (map (map_variable ?N)) cs)" "l \<in> set c"
    from in_map [OF this(1)] obtain c' where c': "c' \<in> set cs" "c = map (map_variable ?N) c'"
      by blast
    from \<open>l \<in> set c\<close> have "l \<in> set (map (map_variable ?N) c')" by (simp only: c'(2))
    from in_map [OF this] obtain v where v: "v \<in> set c'" "l = map_variable ?N v" by blast
    with c'(1) ok have "var_in_range ?N v" by blast
    with v(2) show "1 \<le> abs l \<and> abs l \<le> ?N ^ 3"
      using map_variable_range [of ?N v] by simp
  qed
  with eq show ?thesis by blast
qed

theorem C8_literals_in_range_witness:
  "\<exists>clauses. to_cnf [[0, 0, 0, 3], [0, 4, 0, 0], [0, 0, 2, 0], [1, 0, 0, 0]] = Inr (clauses, 64)
     \<and> (\<forall>c \<in> set clauses. \<forall>l \<in> set c. 1 \<le> abs l \<and> abs l \<le> 64)"
  using C8_literals_in_range [of "[[0, 0, 0, 3], [0, 4, 0, 0], [0, 0, 2, 0], [1, 0, 0, 0]]"]
  by (simp add: well_formed_grid_def)

text \<open>
  The encoder emits no tautology: for a well-formed grid no clause holds a literal
  together with its negation.
\<close>

theorem encoder_emits_no_tautology:
  assumes "well_formed_grid grid"
  shows "\<exists>clauses. to_cnf grid = Inr (clauses, int (length grid) ^ 3)
           \<and> (\<forall>c \<in> set clauses. \<forall>l \<in> set c. - l \<notin> set c)"
proof -
  let ?N = "int (length grid)"
  from encode_well_formed [OF assms] obtain cs
    where eq: "to_cnf grid = Inr (map (map (map_variable ?N)) cs, ?N ^ 3)"
      and ok: "\<forall>c \<in> set cs. same_polarity c \<and> (\<forall>v \<in> set c. var_in_range ?N v)" by blast
  have "\<forall>c \<in> set (map (map (map_variable ?N)) cs). \<forall>l \<in> set c. - l \<notin> set c"
  proof (intro ballI)
    fix c l assume "c \<in> set (map (map (map_variable ?N)) cs)" and l: "l \<in> set c"
    from in_map [OF this(1)] obtain c' where c': "c' \<in> set cs" "c = map (map_variable ?N) c'"
      by blast
    with ok have pol: "same_polarity c'" and rng: "\<forall>v \<in> set c'. var_in_range ?N v" by blast+
    have sign: "(\<forall>k \<in> set c. k > 0) \<or> (\<forall>k \<in> set c. \<not> k > 0)"
      using pol rng unfolding c'(2) same_polarity_def list_all_iff
      by (auto simp: map_variable_sign)
    have nz: "l \<noteq> 0"
    proof -
      from l obtain v where "v \<in> set c'" "l = map_variable ?N v" unfolding c'(2) by auto
      with rng map_variable_range [of ?N v] show ?thesis by auto
    qed
    show "- l \<notin> set c"
    proof
      assume "- l \<in> set c"
      with sign l have "(l > 0 \<and> - l > 0) \<or> (\<not> l > 0 \<and> \<not> - l > 0)" by blast
      with nz show False by linarith
    qed
  qed
  with eq show ?thesis by blast
qed

theorem encoder_emits_no_tautology_witness:
  "\<exists>clauses. to_cnf [[2, 0, 0, 0], [0, 0, 1, 0], [0, 3, 0, 0], [0, 0, 0, 4]] = Inr (clauses, 64)
     \<and> (\<forall>c \<in> set clauses. \<forall>l \<in> set c. - l \<notin> set c)"
  using encoder_emits_no_tautology [of "[[2, 0, 0, 0], [0, 0, 1, 0], [0, 3, 0, 0], [0, 0, 0, 4]]"]
  by (simp add: well_formed_grid_def)

section \<open>Properties of the solvers\<close>

text \<open>
  What the specification asks of a returned model \<open>M\<close> and a clause \<open>C\<close>: some
  literal \<open>l\<close> of \<open>C\<close> has \<open>M[|l|] = l\<close> (positions counted from 1).
\<close>

definition model_satisfies :: "int list \<Rightarrow> clause \<Rightarrow> bool" where
  "model_satisfies M C =
     list_ex (\<lambda>l. 1 \<le> abs l \<and> nat (abs l) \<le> length M \<and> M ! (nat (abs l) - 1) = l) C"

subsection \<open>BaseDPLL returns only satisfying models\<close>

text \<open>
  A literal is true under an assignment when its variable is assigned its sign. The
  invariant of the search relates the clause list \<open>F\<close> the solver was given to the
  current clause list and assignment: every clause of \<open>F\<close> is already satisfied or
  has a current clause among its subsets, and no current clause mentions \<open>0\<close> or an
  assigned variable.
\<close>

definition lit_true :: "assignment \<Rightarrow> int \<Rightarrow> bool" where
  "lit_true a l = (dict_get a (abs l) = Some (l > 0))"

definition search_inv :: "cnf \<Rightarrow> cnf \<Rightarrow> assignment \<Rightarrow> bool" where
  "search_inv F clauses a =
     ((\<forall>c0 \<in> set F. (\<exists>l \<in> set c0. lit_true a l) \<or> (\<exists>c \<in> set clauses. set c \<subseteq> set c0))
      \<and> (\<forall>c \<in> set clauses. \<forall>l \<in> set c. l \<noteq> 0 \<and> dict_get a (abs l) = None))"

lemma assign_literal_mem:
  "c' \<in> set (assign_literal clauses lit) \<longleftrightarrow>
     (\<exists>c \<in> set clauses. lit \<notin> set c \<and> c' = filter (\<lambda>l. l \<noteq> - lit) c)"
  unfolding assign_literal_def by auto

lemma search_inv_assign:
  assumes inv: "search_inv F clauses a" and un: "dict_get a (abs lit) = None" and nz: "lit \<noteq> 0"
  shows "search_inv F (assign_literal clauses lit) (dict_set a (abs lit) (lit > 0))"
proof -
  let ?a = "dict_set a (abs lit) (lit > 0)"
  let ?C = "assign_literal clauses lit"
  have keep: "lit_true ?a l" if "lit_true a l" for l
  proof -
    from that un have "abs l \<noteq> abs lit" by (auto simp: lit_true_def)
    with that show ?thesis by (simp add: lit_true_def dict_get_set)
  qed
  have new: "lit_true ?a lit" by (simp add: lit_true_def dict_get_set)
  have part1: "(\<exists>l \<in> set c0. lit_true ?a l) \<or> (\<exists>c \<in> set ?C. set c \<subseteq> set c0)"
    if c0: "c0 \<in> set F" for c0
  proof -
    from inv c0 consider "\<exists>l \<in> set c0. lit_true a l" | "\<exists>c \<in> set clauses. set c \<subseteq> set c0"
      unfolding search_inv_def by blast
    then show ?thesis
    proof cases
      case 1
      then show ?thesis using keep by blast
    next
      case 2
      then obtain c where c: "c \<in> set clauses" "set c \<subseteq> set c0" by blast
      show ?thesis
      proof (cases "lit \<in> set c")
        case True
        with c(2) have "lit \<in> set c0" by blast
        with new show ?thesis by blast
      next
        case False
        with c(1) have "filter (\<lambda>l. l \<noteq> - lit) c \<in> set ?C"
          by (auto simp: assign_literal_mem)
        moreover have "set (filter (\<lambda>l. l \<noteq> - lit) c) \<subseteq> set c0" using c(2) by auto
        ultimately show ?thesis by blast
      qed
    qed
  qed
  have part2: "l \<noteq> 0 \<and> dict_get ?a (abs l) = None" if "c' \<in> set ?C" "l \<in> set c'" for c' l
  proof -
    from that(1) obtain c where c: "c \<in> set clauses" "lit \<notin> set c"
      "c' = filter (\<lambda>l. l \<noteq> - lit) c" by (auto simp: assign_literal_mem)
    with that(2) have l: "l \<in> set c" "l \<noteq> - lit" "l \<noteq> lit" by auto
    then have "abs l \<noteq> abs lit" by auto
    moreover from inv c(1) l(1) have "l \<noteq> 0" "dict_get a (abs l) = None"
      unfolding search_inv_def by blast+
    ultimately show ?thesis by (simp add: dict_get_set)
  qed
  show ?thesis unfolding search_inv_def using part1 part2 by blast
qed

lemma assign_literal_keeps_empty:
  assumes "[] \<in> set clauses"
  shows "[] \<in> set (assign_literal clauses lit)"
proof -
  have "lit \<notin> set [] \<and> [] = filter (\<lambda>l. l \<noteq> - lit) []" by simp
  with assms show ?thesis unfolding assign_literal_mem by blast
qed

lemma up_for_inv:
  assumes "up_for us clauses a props changed = (Some clauses', a', props', changed')"
    and "search_inv F clauses a"
  shows "search_inv F clauses' a'"
  using assms
proof (induction us arbitrary: clauses a props changed)
  case Nil
  then show ?case by simp
next
  case (Cons u us)
  let ?lit = "hd u"
  show ?case
  proof (cases "dict_get a (abs ?lit)")
    case (Some b)
    with Cons.prems(1)
    have "up_for us clauses a props changed = (Some clauses', a', props', changed')"
      by (simp split: if_splits)
    then show ?thesis using Cons.prems(2) by (rule Cons.IH)
  next
    case None
    with Cons.prems(1)
    have rec: "up_for us (assign_literal clauses ?lit) (dict_set a (abs ?lit) (?lit > 0))
                 (props + 1) True = (Some clauses', a', props', changed')"
      and ne: "\<not> list_ex (\<lambda>c. length c = 0) (assign_literal clauses ?lit)"
      by (simp_all add: Let_def split: if_splits)
    show ?thesis
    proof (cases "?lit = 0")
      case False
      from search_inv_assign [OF Cons.prems(2) None False] rec show ?thesis by (rule Cons.IH [rotated])
    next
      case True
      \<comment> \<open>the literal \<open>0\<close> does not occur in the clauses, so nothing changes\<close>
      have same: "assign_literal clauses 0 = clauses"
      proof -
        from Cons.prems(2) have nz: "\<forall>c \<in> set clauses. 0 \<notin> set c"
          unfolding search_inv_def by blast
        then have "filter (\<lambda>clause. (0::int) \<notin> set clause) clauses = clauses" by simp
        moreover have "map (filter (\<lambda>l. l \<noteq> (0::int))) clauses = clauses"
          using nz by (intro map_idI filter_True) auto
        ultimately show ?thesis by (simp add: assign_literal_def)
      qed
      have "search_inv F clauses (dict_set a 0 False)"
        using Cons.prems(2) None True
        unfolding search_inv_def lit_true_def
        by (auto simp: dict_get_set)
      with rec True same show ?thesis using Cons.IH by simp
    qed
  qed
qed


lemma up_for_keeps_empty:
  assumes "up_for us clauses a props changed = (Some clauses', a', props', changed')"
    and "[] \<in> set clauses"
  shows "[] \<in> set clauses'"
  using assms
proof (induction us arbitrary: clauses a props changed)
  case Nil
  then show ?case by simp
next
  case (Cons u us)
  show ?case
  proof (cases "dict_get a (abs (hd u))")
    case (Some b)
    with Cons.prems(1)
    have "up_for us clauses a props changed = (Some clauses', a', props', changed')"
      by (simp split: if_splits)
    then show ?thesis using Cons.prems(2) by (rule Cons.IH)
  next
    case None
    with Cons.prems(1)
    have "up_for us (assign_literal clauses (hd u)) (dict_set a (abs (hd u)) (hd u > 0))
                 (props + 1) True = (Some clauses', a', props', changed')"
      by (simp add: Let_def split: if_splits)
    then show ?thesis
      using assign_literal_keeps_empty [OF Cons.prems(2)] by (rule Cons.IH)
  qed
qed

lemma unit_propagate_inv:
  "unit_propagate clauses a props = (Some clauses', a', props') \<Longrightarrow> search_inv F clauses a
     \<Longrightarrow> search_inv F clauses' a'"
proof (induction clauses a props rule: unit_propagate.induct)
  case (1 clauses a props)
  let ?us = "filter (\<lambda>c. length c = 1) clauses"
  show ?case
  proof (cases "?us = []")
    case True
    with "1.prems" show ?thesis by (simp add: unit_propagate.simps [of clauses])
  next
    case False
    obtain r b p ch where up: "up_for ?us clauses a props False = (r, b, p, ch)"
      by (cases "up_for ?us clauses a props False") auto
    with False "1.prems"(1) obtain c1 where r: "r = Some c1"
      by (cases r) (simp_all add: unit_propagate.simps [of clauses])
    from up r have "up_for ?us clauses a props False = (Some c1, b, p, ch)" by simp
    then have inv1: "search_inv F c1 b" using "1.prems"(2) by (rule up_for_inv)
    show ?thesis
    proof (cases ch)
      case True
      with False up r "1.prems"(1) have "unit_propagate c1 b p = (Some clauses', a', props')"
        by (simp add: unit_propagate.simps [of clauses])
      with "1.IH" [OF refl False up [symmetric] r refl refl True] inv1 show ?thesis by blast
    next
      case False
      with \<open>?us \<noteq> []\<close> up r "1.prems"(1) have "clauses' = c1" "a' = b"
        by (simp_all add: unit_propagate.simps [of clauses])
      with inv1 show ?thesis by simp
    qed
  qed
qed

lemma unit_propagate_keeps_empty:
  "unit_propagate clauses a props = (Some clauses', a', props') \<Longrightarrow> [] \<in> set clauses
     \<Longrightarrow> [] \<in> set clauses'"
proof (induction clauses a props rule: unit_propagate.induct)
  case (1 clauses a props)
  let ?us = "filter (\<lambda>c. length c = 1) clauses"
  show ?case
  proof (cases "?us = []")
    case True
    with "1.prems" show ?thesis by (simp add: unit_propagate.simps [of clauses])
  next
    case False
    obtain r b p ch where up: "up_for ?us clauses a props False = (r, b, p, ch)"
      by (cases "up_for ?us clauses a props False") auto
    with False "1.prems"(1) obtain c1 where r: "r = Some c1"
      by (cases r) (simp_all add: unit_propagate.simps [of clauses])
    from up r have "up_for ?us clauses a props False = (Some c1, b, p, ch)" by simp
    then have e1: "[] \<in> set c1" using "1.prems"(2) by (rule up_for_keeps_empty)
    show ?thesis
    proof (cases ch)
      case True
      with False up r "1.prems"(1) have "unit_propagate c1 b p = (Some clauses', a', props')"
        by (simp add: unit_propagate.simps [of clauses])
      with "1.IH" [OF refl False up [symmetric] r refl refl True] e1 show ?thesis by blast
    next
      case False
      with \<open>?us \<noteq> []\<close> up r "1.prems"(1) have "clauses' = c1"
        by (simp_all add: unit_propagate.simps [of clauses])
      with e1 show ?thesis by simp
    qed
  qed
qed

lemma min_list_mem: "xs \<noteq> [] \<Longrightarrow> min_list xs \<in> set xs"
  for xs :: "int list"
  by (simp add: min_list_Min)

lemma find_pure_literal_mem:
  assumes "find_pure_literal clauses = Some l"
  shows "l \<in> set (concat clauses)"
proof -
  let ?lits = "concat clauses"
  let ?pos = "filter (\<lambda>lit. lit > 0) ?lits"
  let ?neg = "map uminus (filter (\<lambda>lit. \<not> lit > 0) ?lits)"
  let ?pp = "filter (\<lambda>v. v \<notin> set ?neg) ?pos"
  let ?pn = "filter (\<lambda>v. v \<notin> set ?pos) ?neg"
  show ?thesis
  proof (cases "?pp \<noteq> []")
    case True
    with assms have "l = min_list ?pp" by (simp add: find_pure_literal_def Let_def)
    with min_list_mem [OF True] have "l \<in> set ?pp" by simp
    then show ?thesis by simp
  next
    case False
    with assms have ne: "?pn \<noteq> []" and l: "l = - min_list ?pn"
      by (simp_all add: find_pure_literal_def Let_def split: if_splits)
    from min_list_mem [OF ne] have "min_list ?pn \<in> set ?neg" by simp
    then have "- min_list ?pn \<in> set ?lits" by auto
    with l show ?thesis by simp
  qed
qed

lemma first_occurrences_fold:
  "set (fold (\<lambda>x acc. if x \<in> set acc then acc else acc @ [x]) xs ys) = set xs \<union> set ys"
  by (induction xs arbitrary: ys) auto

lemma set_first_occurrences: "set (first_occurrences xs) = set xs"
  by (simp add: first_occurrences_def first_occurrences_fold)

lemma py_max_fold: "fold (\<lambda>y best. if f best < f y then y else best) xs x \<in> set (x # xs)"
proof (induction xs arbitrary: x)
  case Nil
  show ?case by simp
next
  case (Cons a xs)
  let ?x = "if f x < f a then a else x"
  have "fold (\<lambda>y best. if f best < f y then y else best) xs ?x \<in> set (?x # xs)"
    by (rule Cons.IH)
  moreover have "set (?x # xs) \<subseteq> set (x # a # xs)" by auto
  ultimately show ?case by (simp only: fold_Cons o_apply) blast
qed

lemma py_max_mem:
  assumes "xs \<noteq> []"
  shows "py_max f xs \<in> set xs"
proof -
  from assms obtain y ys where xs: "xs = y # ys" by (cases xs) auto
  show ?thesis unfolding xs py_max.simps by (rule py_max_fold)
qed

lemma choose_variable_mem:
  assumes "concat clauses \<noteq> []"
  shows "\<exists>l \<in> set (concat clauses). choose_variable clauses = abs l"
proof -
  let ?keys = "first_occurrences (concat clauses)"
  from assms have "set ?keys \<noteq> {}" by (simp add: set_first_occurrences del: set_concat)
  then have ne: "?keys \<noteq> []" by auto
  from py_max_mem [OF ne]
  have "py_max (\<lambda>l. count_list (concat clauses) l) ?keys \<in> set (concat clauses)"
    by (simp only: set_first_occurrences)
  moreover have "choose_variable clauses = abs (py_max (\<lambda>l. count_list (concat clauses) l) ?keys)"
    using ne by (simp add: choose_variable_def Let_def)
  ultimately show ?thesis by blast
qed


text \<open>
  The search never answers true on a clause list that holds the empty clause, and
  a true answer leaves in \<^verbatim>\<open>self.assignment\<close> an assignment that makes a literal of
  every clause of \<open>F\<close> true. The proof is by fixpoint induction on the recursion.
\<close>

lemma base_dpll_sound_aux:
  assumes "base_dpll clauses a self = Some y"
  shows "fst y \<longrightarrow> [] \<notin> set clauses
           \<and> (search_inv F clauses a \<longrightarrow> (\<forall>c0 \<in> set F. \<exists>l \<in> set c0. lit_true (b_assignment (snd y)) l))"
proof (rule base_dpll.raw_induct [where P = "\<lambda>clauses a self y. fst y \<longrightarrow> [] \<notin> set clauses
           \<and> (search_inv F clauses a \<longrightarrow> (\<forall>c0 \<in> set F. \<exists>l \<in> set c0. lit_true (b_assignment (snd y)) l))",
         OF _ assms], goal_cases)
  case (1 dpll clauses0 assignment0 self y)
  note IH = 1(1) and body = 1(2)
  obtain r a1 p where up: "unit_propagate clauses0 assignment0 (unit_propagations (b_metrics self)) = (r, a1, p)"
    by (cases "unit_propagate clauses0 assignment0 (unit_propagations (b_metrics self))") auto
  show ?case
  proof (cases r)
    case None
    with up body have "fst y = False" by auto
    then show ?thesis by simp
  next
    case (Some c1)
    note up1 = up [unfolded Some]
    have empty1: "[] \<in> set clauses0 \<Longrightarrow> [] \<in> set c1"
      using up1 by (rule unit_propagate_keeps_empty)
    have inv1: "search_inv F clauses0 assignment0 \<Longrightarrow> search_inv F c1 a1"
      using up1 by (rule unit_propagate_inv)
    let ?self1 = "self\<lparr>b_metrics := (b_metrics self)\<lparr>unit_propagations := p\<rparr>\<rparr>"
    show ?thesis
    proof (cases "c1 = []")
      case True
      with up1 body have y: "y = (True, ?self1\<lparr>b_assignment := a1\<rparr>)" by (simp add: Let_def)
      have "[] \<notin> set clauses0" using empty1 True by auto
      moreover have "\<forall>c0 \<in> set F. \<exists>l \<in> set c0. lit_true a1 l" if "search_inv F clauses0 assignment0"
        using inv1 [OF that] True unfolding search_inv_def by simp
      ultimately show ?thesis using y by simp
    next
      case False
      note nonempty = this
      show ?thesis
      proof (cases "truthy (find_pure_literal c1)")
        case True
        then obtain pl where pl: "find_pure_literal c1 = Some pl" "pl \<noteq> 0"
          by (auto simp: truthy_def split: option.splits)
        with up1 nonempty body
        have call: "dpll (assign_literal c1 pl) (dict_set a1 (abs pl) (pl > 0)) ?self1 = Some y"
          by (simp add: Let_def truthy_def)
        note ih = IH [OF call]
        show ?thesis
        proof (intro impI conjI)
          assume t: "fst y"
          with ih have "[] \<notin> set (assign_literal c1 pl)" by simp
          then have "[] \<notin> set c1" using assign_literal_keeps_empty by blast
          then show "[] \<notin> set clauses0" using empty1 by blast
          assume "search_inv F clauses0 assignment0"
          then have i1: "search_inv F c1 a1" by (rule inv1)
          from find_pure_literal_mem [OF pl(1)] obtain c where "c \<in> set c1" "pl \<in> set c" by auto
          with i1 have "dict_get a1 (abs pl) = None" unfolding search_inv_def by blast
          from search_inv_assign [OF i1 this pl(2)] ih t
          show "\<forall>c0 \<in> set F. \<exists>l \<in> set c0. lit_true (b_assignment (snd y)) l" by blast
        qed
      next
        case False
        let ?var = "choose_variable c1"
        let ?self2 = "?self1\<lparr>b_metrics := add_decision (b_metrics ?self1)\<rparr>"
        from up1 nonempty False body
        have bound: "Option.bind (dpll (assign_literal c1 ?var) (dict_set a1 ?var True) ?self2)
                 (\<lambda>r. if fst r then Some r
                      else dpll (assign_literal c1 (- ?var)) (dict_set a1 ?var False)
                             ((snd r)\<lparr>b_metrics := add_backtrack (b_metrics (snd r))\<rparr>)) = Some y"
          by (simp add: Let_def)
        then obtain r1 where r1: "dpll (assign_literal c1 ?var) (dict_set a1 ?var True) ?self2 = Some r1"
          and rest: "(if fst r1 then Some r1
                      else dpll (assign_literal c1 (- ?var)) (dict_set a1 ?var False)
                             ((snd r1)\<lparr>b_metrics := add_backtrack (b_metrics (snd r1))\<rparr>)) = Some y"
          by (auto simp: bind_eq_Some_conv)
        show ?thesis
        proof (intro impI conjI)
          assume t: "fst y"
          have ne1: "[] \<notin> set c1"
          proof (cases "fst r1")
            case True
            with IH [OF r1] have "[] \<notin> set (assign_literal c1 ?var)" by simp
            then show ?thesis using assign_literal_keeps_empty by blast
          next
            case False
            with rest have "dpll (assign_literal c1 (- ?var)) (dict_set a1 ?var False)
                             ((snd r1)\<lparr>b_metrics := add_backtrack (b_metrics (snd r1))\<rparr>) = Some y" by simp
            from IH [OF this] t have "[] \<notin> set (assign_literal c1 (- ?var))" by simp
            then show ?thesis using assign_literal_keeps_empty by blast
          qed
          then show "[] \<notin> set clauses0" using empty1 by blast
          assume "search_inv F clauses0 assignment0"
          then have i1: "search_inv F c1 a1" by (rule inv1)
          from nonempty ne1 have "concat c1 \<noteq> []" by (cases c1) auto
          from choose_variable_mem [OF this] obtain l c where l: "c \<in> set c1" "l \<in> set c" "?var = abs l"
            by auto
          with i1 have un: "dict_get a1 (abs l) = None" and nz: "l \<noteq> 0"
            unfolding search_inv_def by blast+
          from nz l(3) have pos: "?var > 0" "abs ?var = ?var" "abs (- ?var) = ?var" by simp_all
          from un l(3) have un': "dict_get a1 (abs ?var) = None" "dict_get a1 (abs (- ?var)) = None"
            by simp_all
          from search_inv_assign [OF i1 un'(1)] pos
          have ip: "search_inv F (assign_literal c1 ?var) (dict_set a1 ?var True)" by simp
          from search_inv_assign [OF i1 un'(2)] pos
          have im: "search_inv F (assign_literal c1 (- ?var)) (dict_set a1 ?var False)" by simp
          show "\<forall>c0 \<in> set F. \<exists>l \<in> set c0. lit_true (b_assignment (snd y)) l"
          proof (cases "fst r1")
            case True
            with rest have "y = r1" by simp
            with IH [OF r1] True ip show ?thesis by blast
          next
            case False
            with rest have "dpll (assign_literal c1 (- ?var)) (dict_set a1 ?var False)
                             ((snd r1)\<lparr>b_metrics := add_backtrack (b_metrics (snd r1))\<rparr>) = Some y" by simp
            from IH [OF this] t im show ?thesis by blast
          qed
        qed
      qed
    qed
  qed
qed


lemma base_dpll_num_vars:
  assumes "base_dpll clauses a self = Some y"
  shows "b_num_vars (snd y) = b_num_vars self"
proof (rule base_dpll.raw_induct [where P = "\<lambda>clauses a self y. b_num_vars (snd y) = b_num_vars self",
         OF _ assms], goal_cases)
  case (1 dpll clauses0 assignment0 self y)
  note IH = 1(1) and body = 1(2)
  obtain r a1 p where up: "unit_propagate clauses0 assignment0 (unit_propagations (b_metrics self)) = (r, a1, p)"
    by (cases "unit_propagate clauses0 assignment0 (unit_propagations (b_metrics self))") auto
  show ?case
  proof (cases r)
    case None
    with up body show ?thesis by auto
  next
    case (Some c1)
    let ?self1 = "self\<lparr>b_metrics := (b_metrics self)\<lparr>unit_propagations := p\<rparr>\<rparr>"
    let ?var = "choose_variable c1"
    let ?self2 = "?self1\<lparr>b_metrics := add_decision (b_metrics ?self1)\<rparr>"
    consider (sat) "c1 = []" | (pure) "c1 \<noteq> []" "truthy (find_pure_literal c1)"
      | (branch) "c1 \<noteq> []" "\<not> truthy (find_pure_literal c1)" by blast
    then show ?thesis
    proof cases
      case sat
      with up Some body show ?thesis by (auto simp: Let_def)
    next
      case pure
      with up Some body
      have "dpll (assign_literal c1 (the (find_pure_literal c1)))
              (dict_set a1 (abs (the (find_pure_literal c1))) (the (find_pure_literal c1) > 0)) ?self1 = Some y"
        by (simp add: Let_def)
      from IH [OF this] show ?thesis by simp
    next
      case branch
      with up Some body
      have "Option.bind (dpll (assign_literal c1 ?var) (dict_set a1 ?var True) ?self2)
                 (\<lambda>r. if fst r then Some r
                      else dpll (assign_literal c1 (- ?var)) (dict_set a1 ?var False)
                             ((snd r)\<lparr>b_metrics := add_backtrack (b_metrics (snd r))\<rparr>)) = Some y"
        by (simp add: Let_def)
      then obtain r1 where r1: "dpll (assign_literal c1 ?var) (dict_set a1 ?var True) ?self2 = Some r1"
        and rest: "(if fst r1 then Some r1
                      else dpll (assign_literal c1 (- ?var)) (dict_set a1 ?var False)
                             ((snd r1)\<lparr>b_metrics := add_backtrack (b_metrics (snd r1))\<rparr>)) = Some y"
        by (auto simp: bind_eq_Some_conv)
      from IH [OF r1] have n1: "b_num_vars (snd r1) = b_num_vars self" by simp
      show ?thesis
      proof (cases "fst r1")
        case True
        with rest n1 show ?thesis by simp
      next
        case False
        with rest have "dpll (assign_literal c1 (- ?var)) (dict_set a1 ?var False)
                             ((snd r1)\<lparr>b_metrics := add_backtrack (b_metrics (snd r1))\<rparr>) = Some y" by simp
        from IH [OF this] n1 show ?thesis by simp
      qed
    qed
  qed
qed

lemma build_model_lit:
  assumes "1 \<le> abs l" "abs l \<le> n" "lit_true a l"
  shows "nat (abs l) \<le> length (build_model n a) \<and> build_model n a ! (nat (abs l) - 1) = l"
proof -
  let ?k = "nat (abs l) - 1"
  from assms(1,2) have k: "1 + int ?k = abs l" "1 + int ?k \<le> n" "?k < length [1..n]" by auto
  then have "[1..n] ! ?k = abs l" by (simp add: nth_upto)
  with k(3) have "build_model n a ! ?k = (if dict_get a (abs l) = Some True then abs l else - abs l)"
    by (simp add: build_model_def)
  moreover from assms(1,3) have "(if dict_get a (abs l) = Some True then abs l else - abs l) = l"
    by (auto simp: lit_true_def)
  moreover from assms(1,2) have "nat (abs l) \<le> length (build_model n a)"
    by (simp add: build_model_def)
  ultimately show ?thesis by simp
qed

text \<open>
  For the variant \<^verbatim>\<open>base\<close> the property of claim C1 holds: on a problem whose
  literals are all in \<open>1..num_vars\<close> (in absolute value), a model returned with the
  status SAT satisfies every input clause.
\<close>

theorem base_returned_model_satisfies_clauses:
  assumes run: "run ''base'' F n = Some (Inr ((''SAT'', Some M), m))"
    and wf: "\<forall>c \<in> set F. \<forall>l \<in> set c. 1 \<le> abs l \<and> abs l \<le> n"
  shows "\<forall>c \<in> set F. model_satisfies M c"
proof -
  let ?self0 = "(BaseDPLL_init F n)\<lparr>b_metrics := reset\<rparr>"
  from run obtain r where solve: "BaseDPLL_solve (BaseDPLL_init F n) = Some r"
    and r: "fst r = (''SAT'', Some M)"
    by (auto simp: run_def get_solver_def)
  from solve obtain y where dpll: "base_dpll F [] ?self0 = Some y"
    and y: "r = (if fst y then ((''SAT'', Some (build_model (b_num_vars (snd y)) (b_assignment (snd y)))), snd y)
                 else ((''UNSAT'', None), snd y))"
    by (auto simp: BaseDPLL_solve_def BaseDPLL_init_def Let_def split: option.splits bool.splits)
  from r y have t: "fst y" and M: "M = build_model (b_num_vars (snd y)) (b_assignment (snd y))"
    by (auto split: if_splits)
  have "l \<noteq> 0" if "c \<in> set F" "l \<in> set c" for c l
    using wf that by fastforce
  then have "search_inv F F []"
    unfolding search_inv_def by (auto simp: dict_get_def)
  with base_dpll_sound_aux [OF dpll, of F] t
  have sat: "\<forall>c0 \<in> set F. \<exists>l \<in> set c0. lit_true (b_assignment (snd y)) l" by blast
  have nv: "b_num_vars (snd y) = n"
    using base_dpll_num_vars [OF dpll] by (simp add: BaseDPLL_init_def)
  show ?thesis
  proof
    fix c assume c: "c \<in> set F"
    with sat obtain l where l: "l \<in> set c" "lit_true (b_assignment (snd y)) l" by blast
    with wf c have "1 \<le> abs l" "abs l \<le> n" by auto
    from build_model_lit [OF this l(2)] l(1) show "model_satisfies M c"
      unfolding model_satisfies_def M nv list_ex_iff using \<open>1 \<le> abs l\<close> by blast
  qed
qed


theorem base_returned_model_satisfies_clauses_witness:
  "list_all (model_satisfies [1, -2, 3]) [[1, 2], [-1, 3], [-3, -2]]"
proof -
  have "run ''base'' [[1, 2], [-1, 3], [-3, -2]] 3
      = Some (Inr ((''SAT'', Some [1, -2, 3]),
          \<lparr>decisions = 1, backtracks = 0, unit_propagations = 2, conflicts = 0\<rparr>))"
    by code_simp
  from base_returned_model_satisfies_clauses [OF this] show ?thesis by (simp add: list_all_iff)
qed

subsection \<open>The claims about the solvers\<close>

text \<open>
  Claim C1 (every returned model satisfies every input clause) fails on the code.
  \<^verbatim>\<open>WatchedLiteralsDPLL\<close> looks for a falsified clause only among the clauses that
  watch the literal just falsified, and a clause watches its first two literals for
  ever: on \<open>{-1}, {-2}, {-3}, {1, 2, 3}\<close> the last literal of the fourth clause is
  falsified unseen, and the solver answers SAT with the model \<open>-1, -2, -3\<close>, which
  falsifies that clause. \<^verbatim>\<open>PreprocessingDPLL\<close> never gives a value to a variable that
  bounded variable elimination removed: on \<open>{1, 2}, {1, 3}, {-1, -3}, {-1, -2}\<close> it
  answers SAT with the model \<open>-1, 2, -3\<close>, which falsifies \<open>{1, 3}\<close>.
\<close>

theorem C1_returned_model_falsifies_clause:
  "run ''watched'' [[-1], [-2], [-3], [1, 2, 3]] 3 =
     Some (Inr ((''SAT'', Some [-1, -2, -3]),
       \<lparr>decisions = 0, backtracks = 0, unit_propagations = 3, conflicts = 0\<rparr>))
   \<and> \<not> model_satisfies [-1, -2, -3] [1, 2, 3]
   \<and> run ''preprocessing'' [[1, 2], [1, 3], [-1, -3], [-1, -2]] 3 =
     Some (Inr ((''SAT'', Some [-1, 2, -3]),
       \<lparr>decisions = 1, backtracks = 0, unit_propagations = 0, conflicts = 0\<rparr>))
   \<and> \<not> model_satisfies [-1, 2, -3] [1, 3]"
  by code_simp

text \<open>
  Claim C2 (all four variants return the same status) fails on the code: the
  unsatisfiable CNF \<open>{1, 2}, {-1, -2}, {1, -2}, {-1, 2}\<close> is UNSAT for \<^verbatim>\<open>base\<close> and
  \<^verbatim>\<open>watched\<close>, and SAT for \<^verbatim>\<open>preprocessing\<close> and \<^verbatim>\<open>combined\<close>, whose variable
  elimination empties the clause list.
\<close>

theorem C2_variants_disagree_on_status:
  "map (\<lambda>variant. map_option (map_sum id (\<lambda>r. fst (fst r)))
                     (run variant [[1, 2], [-1, -2], [1, -2], [-1, 2]] 2))
     [''base'', ''watched'', ''preprocessing'', ''combined'']
   = [Some (Inr ''UNSAT''), Some (Inr ''UNSAT''), Some (Inr ''SAT''), Some (Inr ''SAT'')]"
  by code_simp

text \<open>
  Claim C3 (subsumption removes a clause only for a strict subset, so one copy of a
  duplicated clause survives) fails on the code: \<^verbatim>\<open>issubset\<close> also holds between
  equal sets, so each copy is removed because of the other. The list below is what the
  pass receives inside \<^verbatim>\<open>_preprocess\<close> (unit propagation and pure-literal elimination
  leave it unchanged); both copies of \<open>{1, 2}\<close> go and \<^verbatim>\<open>clauses_eliminated\<close> grows
  by 2.
\<close>

theorem C3_subsumption_removes_both_copies:
  "exhaustive_unit_propagation [[1, 2], [1, 2], [-1, -2]] 0 = (Some [[1, 2], [1, 2], [-1, -2]], [], 0)
   \<and> pure_literal_elimination [[1, 2], [1, 2], [-1, -2]] [] = ([[1, 2], [1, 2], [-1, -2]], [])
   \<and> subsumption_elimination [[1, 2], [1, 2], [-1, -2]] = ([[-1, -2]], 2)"
  by code_simp

text \<open>
  Claim C4 (when both polarities fail, the assignment is restored to the saved
  pre-decision assignment) fails on the code. \<^verbatim>\<open>_restore_state\<close> makes
  \<^verbatim>\<open>self.assignment\<close> the saved \<^verbatim>\<open>dict\<close> itself, so the second branch writes its
  decision and its propagations into the saved copy, and the final restore yields that
  changed \<^verbatim>\<open>dict\<close>. On \<open>{1, 2}, {-1, -2}, {1, -2}, {-1, 2}\<close> the first call of
  \<^verbatim>\<open>_dpll\<close> propagates nothing, decides on variable 1 with the empty assignment saved,
  fails on both polarities and returns false with the assignment \<open>{1: False, 2: True}\<close>.
\<close>

theorem C4_assignment_not_restored:
  "map_option (\<lambda>r. (fst r, cur_assignment (snd r)))
     (wl_unit_propagate (WatchedLiteralsDPLL_init [[1, 2], [-1, -2], [1, -2], [-1, 2]] 2))
     = Some (True, [])
   \<and> map_option (\<lambda>r. (fst r, cur_assignment (snd r), decisions (w_metrics (snd r))))
     (wl_dpll (WatchedLiteralsDPLL_init [[1, 2], [-1, -2], [1, -2], [-1, 2]] 2))
     = Some (False, [(1, False), (2, True)], 1)"
  by code_simp

text \<open>
  Claim C5 (an empty resolvent makes the solver answer UNSAT) fails on the code: the
  test \<^verbatim>\<open>if resolvent:\<close> drops an empty resolvent. On the unsatisfiable CNF
  \<open>{1, 2}, {-1, -2}, {1, -2}, {-1, 2}\<close> eliminating variable 1 leaves
  \<open>{2, -2}, {2}, {-2}, {-2, 2}\<close>; for variable 2 the pass resolves the clauses at
  the indices recorded before (0 and 3 against 1 and 2), every resolvent is empty and
  is dropped, the clause list ends empty and both solvers answer SAT.
\<close>

theorem C5_empty_resolvent_dropped:
  "map_sum id (\<lambda>r. (map set (fst r), snd r))
     (bve_loop [(1, [0, 2], [1, 3])] 10 [[1, 2], [-1, -2], [1, -2], [-1, 2]] 0)
     = Inr ([{2, -2}, {2}, {-2}, {2, -2}], 1)
   \<and> resolvent 2 [2, -2] [2] = []
   \<and> resolvent 2 [2, -2] [-2] = []
   \<and> bounded_variable_elimination [[1, 2], [-1, -2], [1, -2], [-1, 2]] 10 = Inr ([], 2)
   \<and> run ''preprocessing'' [[1, 2], [-1, -2], [1, -2], [-1, 2]] 2
      = Some (Inr ((''SAT'', Some [-1, -2]), reset))
   \<and> run ''combined'' [[1, 2], [-1, -2], [1, -2], [-1, 2]] 2
      = Some (Inr ((''SAT'', Some [-1, -2]), reset))"
  by code_simp

text \<open>
  Claim C6 (no clause of the result mentions an eliminated variable) fails on the
  code: the occurrence lists are computed once and hold indices of the clause list as
  it was, so after the first elimination they point to other clauses. On
  \<open>{1, 2}, {1, 3}, {-1, -3}, {-1, -2}\<close> (a list that reaches the pass unchanged inside
  \<^verbatim>\<open>_preprocess\<close>) all three variables are counted as eliminated, and the result is
  the clause \<open>{2, -2}\<close>.
\<close>

theorem C6_eliminated_variable_remains:
  "var_occurrences [[1, 2], [1, 3], [-1, -3], [-1, -2]]
     = [(1, [0, 1], [2, 3]), (2, [0], [3]), (3, [1], [2])]
   \<and> map_sum id (\<lambda>r. (map set (fst r), snd r))
       (bounded_variable_elimination [[1, 2], [1, 3], [-1, -3], [-1, -2]] 10)
     = Inr ([{2, -2}], 3)
   \<and> map_sum id (\<lambda>r. (map_option (map set) (fst r), p_vars_eliminated (snd r)))
       (preprocess (PreprocessingDPLL_init [[1, 2], [1, 3], [-1, -3], [-1, -2]] 3)
          [[1, 2], [1, 3], [-1, -3], [-1, -2]])
     = Inr (Some [{2, -2}], 3)"
  by code_simp

text \<open>
  The conflict that \<^verbatim>\<open>preprocessing\<close> does not count: on \<open>{1}, {-1}\<close> the
  return marked \<^verbatim>\<open># Conflict\<close> in \<^verbatim>\<open>_exhaustive_unit_propagation\<close> is taken, and
  \<^verbatim>\<open>solve\<close> leaves through \<^verbatim>\<open>if clauses is None\<close> with \<^verbatim>\<open>metrics.conflicts\<close> still 0.
\<close>

theorem C9_preprocessing_counts_no_conflict:
  "run ''preprocessing'' [[1], [-1]] 1
     = Some (Inr ((''UNSAT'', None),
         \<lparr>decisions = 0, backtracks = 0, unit_propagations = 1, conflicts = 0\<rparr>))
   \<and> \<not> 1 \<le> conflicts \<lparr>decisions = 0, backtracks = 0, unit_propagations = 1, conflicts = 0\<rparr>"
  by code_simp

text \<open>
  Claim C9 (on \<open>{1}, {-1}\<close> every variant returns UNSAT and has counted at least
  one conflict) fails on the code. Every variant returns UNSAT after one unit
  propagation, and \<^verbatim>\<open>base\<close> and \<^verbatim>\<open>watched\<close> count the failed propagation as one
  conflict in \<^verbatim>\<open>_dpll\<close>. \<^verbatim>\<open>preprocessing\<close> and \<^verbatim>\<open>combined\<close> meet the same failure
  in \<^verbatim>\<open>_exhaustive_unit_propagation\<close>, return UNSAT at once and leave
  \<^verbatim>\<open>metrics.conflicts\<close> at 0, although they report the conflicts of the search
  whenever they get as far as the search.
\<close>

theorem C9_minimal_unsat:
  "map (\<lambda>variant. run variant [[1], [-1]] 1) [''base'', ''watched'', ''preprocessing'', ''combined'']
   = [Some (Inr ((''UNSAT'', None),
        \<lparr>decisions = 0, backtracks = 0, unit_propagations = 1, conflicts = 1\<rparr>)),
      Some (Inr ((''UNSAT'', None),
        \<lparr>decisions = 0, backtracks = 0, unit_propagations = 1, conflicts = 1\<rparr>)),
      Some (Inr ((''UNSAT'', None),
        \<lparr>decisions = 0, backtracks = 0, unit_propagations = 1, conflicts = 0\<rparr>)),
      Some (Inr ((''UNSAT'', None),
        \<lparr>decisions = 0, backtracks = 0, unit_propagations = 1, conflicts = 0\<rparr>))]"
  by code_simp

subsection \<open>Further properties of the solvers\<close>

text \<open>
  On the CNF that consists of the empty clause, \<^verbatim>\<open>BaseDPLL\<close> finds no unit clause, no
  pure literal and no literal to count, branches on variable 1 and meets the same clause
  list again: the recursion never returns (in Python, until the stack is exhausted).
\<close>

lemma base_dpll_empty_clause_diverges_aux:
  assumes "base_dpll clauses a self = Some y"
  shows "clauses \<noteq> [[]]"
proof (rule base_dpll.raw_induct [where P = "\<lambda>clauses a self y. clauses \<noteq> [[]]", OF _ assms],
    goal_cases)
  case (1 dpll clauses0 assignment0 self y)
  note IH = 1(1) and body = 1(2)
  show ?case
  proof
    assume e: "clauses0 = [[]]"
    have up: "unit_propagate [[]] assignment0 (unit_propagations (b_metrics self))
        = (Some [[]], assignment0, unit_propagations (b_metrics self))"
      by (simp add: unit_propagate.simps [of "[[]]"])
    have pure: "\<not> truthy (find_pure_literal [[]])"
      by (simp add: find_pure_literal_def truthy_def)
    have al: "assign_literal [[]] lit = [[]]" for lit
      by (simp add: assign_literal_def)
    from body obtain r1 where "dpll [[]] (dict_set assignment0 (choose_variable [[]]) True)
        (self\<lparr>b_metrics := add_decision ((b_metrics self)\<lparr>unit_propagations := unit_propagations (b_metrics self)\<rparr>)\<rparr>)
        = Some r1"
      unfolding e up by (auto simp: Let_def pure al bind_eq_Some_conv)
    from IH [OF this] show False by simp
  qed
qed

theorem base_does_not_return_on_empty_clause: "run ''base'' [[]] num_vars = None"
proof -
  have "base_dpll [[]] a self = None" for a self
    using base_dpll_empty_clause_diverges_aux [of "[[]]" a self] by (cases "base_dpll [[]] a self") auto
  then show ?thesis
    by (simp add: run_def get_solver_def BaseDPLL_solve_def BaseDPLL_init_def)
qed

text \<open>
  The scenario \<open>{1}, {-1, 2}, {-2, 3}, {-3, 4}\<close> of the specification: every variant
  answers SAT with the model \<open>1, 2, 3, 4\<close>, by four unit propagations and no decision.
\<close>

theorem unit_chain_scenario:
  "map (\<lambda>variant. run variant [[1], [-1, 2], [-2, 3], [-3, 4]] 4)
     [''base'', ''watched'', ''preprocessing'', ''combined'']
   = replicate 4 (Some (Inr ((''SAT'', Some [1, 2, 3, 4]),
        \<lparr>decisions = 0, backtracks = 0, unit_propagations = 4, conflicts = 0\<rparr>)))"
  by code_simp

text \<open>
  The scenario \<open>{1, 2, 3}, {1, 2}\<close> of the specification: subsumption keeps
  \<open>{1, 2}\<close>, removes \<open>{1, 2, 3}\<close> and counts one removal.
\<close>

theorem subsumption_scenario:
  "subsumption_elimination [[1, 2, 3], [1, 2]] = ([[1, 2]], 1)"
  by code_simp

text \<open>
  The stale indices of bounded variable elimination can also leave the clause list:
  on the satisfiable CNF \<open>{1, 2}, {-1, -2}\<close> the elimination of variable 1 leaves one
  clause, the occurrence list of variable 2 still names index 1, and \<^verbatim>\<open>solve\<close> of
  \<^verbatim>\<open>preprocessing\<close> and \<^verbatim>\<open>combined\<close> ends with \<^verbatim>\<open>IndexError\<close>, where \<^verbatim>\<open>base\<close> answers SAT.
\<close>

theorem preprocessing_raises_IndexError:
  "run ''preprocessing'' [[1, 2], [-1, -2]] 2 = Some (Inl IndexError)
   \<and> run ''combined'' [[1, 2], [-1, -2]] 2 = Some (Inl IndexError)
   \<and> run ''base'' [[1, 2], [-1, -2]] 2
      = Some (Inr ((''SAT'', Some [1, -2]),
          \<lparr>decisions = 1, backtracks = 0, unit_propagations = 1, conflicts = 0\<rparr>))"
  by code_simp

text \<open>The factory refuses every name but the four variants, with \<^verbatim>\<open>ValueError\<close>.\<close>

theorem get_solver_unknown_variant:
  assumes "variant \<notin> {''base'', ''watched'', ''preprocessing'', ''combined''}"
  shows "get_solver variant clauses num_vars = Inl ValueError"
  using assms by (simp add: get_solver_def)

theorem get_solver_unknown_variant_witness:
  "get_solver ''cdcl'' [[1]] 1 = Inl ValueError"
  by (rule get_solver_unknown_variant) simp

end
